theory Spec2Isabelle
  imports Main
begin

section \<open>Data model of collab/models.py\<close>

text \<open>
  The five concrete content models. A \<open>ContentType\<close> row of Django stands for a model
  class, so the generic foreign keys of \<open>ContentTag\<close> and \<open>ContentLink\<close> are pairs of a
  \<open>kind\<close> and an object id.
\<close>

datatype kind = Page | Essay | Character | Story | Image

text \<open>
  Exceptions are values. \<open>ValidationError\<close> is Django's, with its messages;
  \<open>ContentValidationError\<close> (field, code) and \<open>ImmutabilityViolationError\<close>
  (content type, content id) are those of collab/exceptions.py; \<open>DoesNotExist\<close> and
  \<open>MultipleObjectsReturned\<close> are raised by \<open>Manager.get\<close>, \<open>IntegrityError\<close> and
  \<open>DatabaseError\<close> by the database layer, \<open>ValueError\<close> by \<open>Model.save\<close>.
  \<open>FileUploadError\<close> (message) is raised by the file checks of \<open>Image.clean\<close>.
\<close>

datatype error =
    ValidationError "string list"
  | ContentValidationError string string
  | ImmutabilityViolationError string "nat option"
  | DoesNotExist
  | MultipleObjectsReturned
  | IntegrityError
  | DatabaseError
  | ValueError
  | FileUploadError string

text \<open>
  An instance of \<open>ContentBase\<close>: the fields of \<open>SoftDeleteMixin\<close> and \<open>ContentBase\<close>.
  \<open>pk\<close> is \<open>None\<close> until the instance has been inserted. The columns that only one
  kind has (summary, word count, full name, alt text, image file, ...) enter the
  functions below only through validation, so an instance carries what validation
  finds in them: \<open>own_field_errors\<close> are the messages that \<open>clean_fields\<close> collects for
  the columns declared by the instance's own class (for a \<open>Character\<close> with an empty
  \<open>full_name\<close>: \<open>This field cannot be blank.\<close>), and \<open>own_clean\<close> is what the \<open>clean\<close>
  method of that class raises after \<open>super().clean()\<close> has returned (for a \<open>Character\<close>
  whose \<open>full_name\<close> is blank: the \<open>ValidationError\<close> \<open>Character must have a full name\<close>;
  for an \<open>Image\<close>: a \<open>ContentValidationError\<close> on \<open>alt_text\<close> or \<open>caption\<close>, or a
  \<open>FileUploadError\<close>; \<open>Page\<close>, \<open>Essay\<close> and \<open>Story\<close> have no \<open>clean\<close> of their own, so
  there it is \<open>None\<close>).
\<close>

record content_base =
  pk :: "nat option"
  kind :: kind
  title :: string
  content :: string
  author :: nat
  world :: nat
  created_at :: int
  is_deleted :: bool
  deleted_at :: "int option"
  deleted_by :: "nat option"
  own_field_errors :: "string list"
  own_clean :: "error option"

record tag =
  tag_id :: nat
  name :: string
  tag_world :: nat

record content_tag =
  content_tag_id :: nat
  content_type :: kind
  object_id :: nat
  tag_ref :: nat

record content_link =
  link_id :: nat
  from_content_type :: kind
  from_object_id :: nat
  to_content_type :: kind
  to_object_id :: nat

text \<open>
  The database: one list of rows per model (the five content tables share one list, a
  row's \<open>kind\<close> says which table it is in), the last id issued by each sequence, and
  the contribution counter of each user's profile. The \<open>created_at\<close> columns of tags,
  associations and links are left out: nothing reads them.
\<close>

record db =
  contents :: "content_base list"
  content_seq :: "kind \<Rightarrow> nat"
  tags :: "tag list"
  tag_seq :: nat
  content_tags :: "content_tag list"
  content_tag_seq :: nat
  content_links :: "content_link list"
  content_link_seq :: nat
  contribution_count :: "nat \<Rightarrow> nat"

text \<open>\<open>Manager.get\<close>: exactly one matching row, or one of two exceptions.\<close>

definition get_row :: "('r \<Rightarrow> bool) \<Rightarrow> 'r list \<Rightarrow> error + 'r" where
  "get_row P rows =
     (case filter P rows of
        [] \<Rightarrow> Inl DoesNotExist
      | [r] \<Rightarrow> Inr r
      | _ \<Rightarrow> Inl MultipleObjectsReturned)"

section \<open>Linking subsystem\<close>

text \<open>
  The lookup \<open>from_content_type=.., from_object_id=.., to_content_type=..,
  to_object_id=..\<close>. An object id of \<open>None\<close> (an unsaved instance) matches no row.
\<close>

definition link_matches ::
  "kind \<Rightarrow> nat option \<Rightarrow> kind \<Rightarrow> nat option \<Rightarrow> content_link \<Rightarrow> bool" where
  "link_matches fk fid tk tid l \<longleftrightarrow>
     from_content_type l = fk \<and> Some (from_object_id l) = fid \<and>
     to_content_type l = tk \<and> Some (to_object_id l) = tid"

text \<open>
  \<open>ContentLink.full_clean\<close> for a new row: the null checks of \<open>clean_fields\<close>, then
  \<open>ContentLink.clean\<close>. The uniqueness check cannot fail where it is called from
  (\<open>get_or_create\<close> has just found no such row).
\<close>

definition ContentLink_full_clean ::
  "kind \<Rightarrow> nat option \<Rightarrow> kind \<Rightarrow> nat option \<Rightarrow> string list" where
  "ContentLink_full_clean fk fid tk tid =
     (if fid = None then [''This field cannot be null.''] else []) @
     (if tid = None then [''This field cannot be null.''] else []) @
     (if fk = tk \<and> fid = tid then [''Content cannot link to itself''] else [])"

text \<open>\<open>ContentLink.save\<close> of a new row: \<open>full_clean\<close>, then the insert.\<close>

definition ContentLink_save ::
  "db \<Rightarrow> kind \<Rightarrow> nat option \<Rightarrow> kind \<Rightarrow> nat option \<Rightarrow> (error + content_link) \<times> db" where
  "ContentLink_save d fk fid tk tid =
     (case (ContentLink_full_clean fk fid tk tid, fid, tid) of
        ([], Some i, Some j) \<Rightarrow>
          (let l = \<lparr>link_id = Suc (content_link_seq d), from_content_type = fk,
                    from_object_id = i, to_content_type = tk, to_object_id = j\<rparr>
           in (Inr l, d\<lparr>content_links := content_links d @ [l],
                         content_link_seq := Suc (content_link_seq d)\<rparr>))
      | (msgs, _, _) \<Rightarrow> (Inl (ValidationError msgs), d))"

definition ContentLink_get_or_create ::
  "db \<Rightarrow> kind \<Rightarrow> nat option \<Rightarrow> kind \<Rightarrow> nat option \<Rightarrow> (error + content_link) \<times> db" where
  "ContentLink_get_or_create d fk fid tk tid =
     (case get_row (link_matches fk fid tk tid) (content_links d) of
        Inr l \<Rightarrow> (Inr l, d)
      | Inl e \<Rightarrow> (if e = DoesNotExist then ContentLink_save d fk fid tk tid
                  else (Inl e, d)))"

text \<open>\<open>link.delete()\<close>: the row with that primary key goes.\<close>

definition ContentLink_delete :: "db \<Rightarrow> content_link \<Rightarrow> db" where
  "ContentLink_delete d l =
     d\<lparr>content_links := filter (\<lambda>r. link_id r \<noteq> link_id l) (content_links d)\<rparr>"

text \<open>
  \<open>ContentBase.link_to\<close>. The result pairs what the call returns or raises with the
  database it leaves behind, so that a write made before an exception stays visible.
\<close>

definition link_to :: "db \<Rightarrow> content_base \<Rightarrow> content_base \<Rightarrow> (error + content_link) \<times> db" where
  "link_to d self target_content =
     (if world target_content \<noteq> world self
      then (Inl (ValidationError [''Cannot link content from different worlds'']), d)
      else
        (case ContentLink_get_or_create d (kind self) (pk self)
                (kind target_content) (pk target_content) of
           (Inl e, d1) \<Rightarrow> (Inl e, d1)
         | (Inr forward_link, d1) \<Rightarrow>
             (case ContentLink_get_or_create d1 (kind target_content) (pk target_content)
                     (kind self) (pk self) of
                (Inl e, d2) \<Rightarrow> (Inl e, d2)
              | (Inr reverse_link, d2) \<Rightarrow> (Inr forward_link, d2))))"

text \<open>
  \<open>ContentBase.unlink_from\<close>: one \<open>try\<close> block around both look-ups and both deletes;
  \<open>ContentLink.DoesNotExist\<close> from either look-up is answered with \<open>False\<close>.
\<close>

definition unlink_from :: "db \<Rightarrow> content_base \<Rightarrow> content_base \<Rightarrow> (error + bool) \<times> db" where
  "unlink_from d self target_content =
     (case get_row (link_matches (kind self) (pk self)
                      (kind target_content) (pk target_content)) (content_links d) of
        Inl e \<Rightarrow> (if e = DoesNotExist then (Inr False, d) else (Inl e, d))
      | Inr forward_link \<Rightarrow>
          (let d1 = ContentLink_delete d forward_link in
           (case get_row (link_matches (kind target_content) (pk target_content)
                            (kind self) (pk self)) (content_links d1) of
              Inl e \<Rightarrow> (if e = DoesNotExist then (Inr False, d1) else (Inl e, d1))
            | Inr reverse_link \<Rightarrow> (Inr True, ContentLink_delete d1 reverse_link))))"

text \<open>
  A generic foreign key is resolved by primary key in the table of its content type,
  soft-deleted rows included; a row that is gone resolves to nothing.
\<close>

definition get_object_for_this_type :: "db \<Rightarrow> kind \<Rightarrow> nat \<Rightarrow> content_base option" where
  "get_object_for_this_type d k i =
     List.find (\<lambda>c. kind c = k \<and> pk c = Some i) (contents d)"

text \<open>\<open>ContentBase.get_linked_content\<close> and \<open>get_content_linking_to_this\<close>.\<close>

definition get_linked_content :: "db \<Rightarrow> content_base \<Rightarrow> content_base list" where
  "get_linked_content d self =
     List.map_filter (\<lambda>l. get_object_for_this_type d (to_content_type l) (to_object_id l))
       (filter (\<lambda>l. from_content_type l = kind self \<and> Some (from_object_id l) = pk self)
          (content_links d))"

definition get_content_linking_to_this :: "db \<Rightarrow> content_base \<Rightarrow> content_base list" where
  "get_content_linking_to_this d self =
     List.map_filter (\<lambda>l. get_object_for_this_type d (from_content_type l) (from_object_id l))
       (filter (\<lambda>l. to_content_type l = kind self \<and> Some (to_object_id l) = pk self)
          (content_links d))"

text \<open>
  What the schema and \<open>ContentLink.save\<close> guarantee of the link table: primary keys
  are distinct and were issued by the sequence, the four columns of
  \<open>unique_together\<close> are a key, and no row links an object to itself.
\<close>

definition link_key :: "content_link \<Rightarrow> kind \<times> nat \<times> kind \<times> nat" where
  "link_key l = (from_content_type l, from_object_id l, to_content_type l, to_object_id l)"

definition links_wf :: "db \<Rightarrow> bool" where
  "links_wf d \<longleftrightarrow>
     distinct (map link_id (content_links d)) \<and>
     list_all (\<lambda>l. link_id l \<le> content_link_seq d) (content_links d) \<and>
     distinct (map link_key (content_links d)) \<and>
     list_all (\<lambda>l. \<not> (from_content_type l = to_content_type l \<and>
                         from_object_id l = to_object_id l)) (content_links d)"

definition link_keys :: "db \<Rightarrow> (kind \<times> nat \<times> kind \<times> nat) set" where
  "link_keys d = link_key ` set (content_links d)"

text \<open>An edge from a to b is present.\<close>

definition has_link :: "db \<Rightarrow> kind \<times> nat \<Rightarrow> kind \<times> nat \<Rightarrow> bool" where
  "has_link d a b \<longleftrightarrow> (fst a, snd a, fst b, snd b) \<in> link_keys d"

text \<open>The link graph is symmetric: each row has its reverse row.\<close>

definition links_symmetric :: "db \<Rightarrow> bool" where
  "links_symmetric d \<longleftrightarrow>
     list_all (\<lambda>l. has_link d (to_content_type l, to_object_id l)
                              (from_content_type l, from_object_id l)) (content_links d)"

text \<open>The instance is the row stored under its kind and primary key.\<close>

definition persisted :: "db \<Rightarrow> content_base \<Rightarrow> bool" where
  "persisted d c \<longleftrightarrow>
     (case pk c of None \<Rightarrow> False
      | Some i \<Rightarrow> get_object_for_this_type d (kind c) i = Some c)"

section \<open>Strings\<close>

text \<open>
  Python strings are modelled by \<open>string\<close>, one \<open>char\<close> for each code point below 256.
  \<open>str.strip()\<close> removes the characters for which \<open>str.isspace\<close> holds from both ends,
  \<open>str.lower()\<close> maps the upper-case letters of that range to lower case.
\<close>

definition py_isspace :: "char \<Rightarrow> bool" where
  "py_isspace c \<longleftrightarrow>
     (of_char c :: nat) \<in> {9, 10, 11, 12, 13, 28, 29, 30, 31, 32, 133, 160}"

definition py_strip :: "string \<Rightarrow> string" where
  "py_strip s = rev (dropWhile py_isspace (rev (dropWhile py_isspace s)))"

definition py_isupper :: "char \<Rightarrow> bool" where
  "py_isupper c \<longleftrightarrow>
     (65 \<le> (of_char c :: nat) \<and> (of_char c :: nat) \<le> 90) \<or>
     (192 \<le> (of_char c :: nat) \<and> (of_char c :: nat) \<le> 222 \<and> (of_char c :: nat) \<noteq> 215)"

definition py_lower_char :: "char \<Rightarrow> char" where
  "py_lower_char c = (if py_isupper c then char_of ((of_char c :: nat) + 32) else c)"

definition py_lower :: "string \<Rightarrow> string" where
  "py_lower s = map py_lower_char s"

text \<open>\<open>str(n)\<close> and the \<open>%d\<close> format for a natural number: its decimal digits.\<close>

fun py_str :: "nat \<Rightarrow> string" where
  "py_str n = (if n < 10 then [char_of (48 + n)]
               else py_str (n div 10) @ [char_of (48 + n mod 10)])"

text \<open>
  The message of Django's \<open>MaxLengthValidator\<close> for a \<open>CharField\<close> with \<open>max_length\<close>
  \<open>limit\<close> and a value of \<open>n\<close> characters.
\<close>

definition max_length_message :: "nat \<Rightarrow> nat \<Rightarrow> string" where
  "max_length_message limit n =
     ''Ensure this value has at most '' @ py_str limit @ '' characters (it has '' @
     py_str n @ '').''"

text \<open>\<open>str.split(',')\<close>: the pieces between the commas, at least one piece.\<close>

fun py_split_comma :: "string \<Rightarrow> string list" where
  "py_split_comma [] = [[]]"
| "py_split_comma (c # cs) =
     (if c = CHR '','' then [] # py_split_comma cs
      else (case py_split_comma cs of
              [] \<Rightarrow> [[c]]
            | p # ps \<Rightarrow> (c # p) # ps))"

section \<open>Tagging subsystem\<close>

text \<open>
  \<open>Tag.full_clean\<close> for a new tag: \<open>clean_fields\<close> (the name is not blank and has at
  most \<open>max_length = 100\<close> characters), \<open>Tag.clean\<close> (which also normalises the name),
  and the \<open>unique_together\<close> check on the cleaned name, skipped when the name field has
  failed. All messages are collected. The second component is the name as \<open>clean\<close>
  leaves it.
\<close>

definition Tag_full_clean :: "db \<Rightarrow> string \<Rightarrow> nat \<Rightarrow> string list \<times> string" where
  "Tag_full_clean d n w =
     (let field_errors =
            (if n = [] then [''This field cannot be blank.'']
             else if length n > 100
             then [max_length_message 100 (length n)]
             else []);
          clean_errors = (if py_strip n = [] then [''Tag name cannot be empty''] else []);
          n' = (if py_strip n = [] then n else py_lower (py_strip n));
          unique_errors =
            (if field_errors = [] \<and> list_ex (\<lambda>t. name t = n' \<and> tag_world t = w) (tags d)
             then [''Tag with this Name and World already exists.'']
             else [])
      in (field_errors @ clean_errors @ unique_errors, n'))"

text \<open>\<open>Tag.save\<close> of a new tag: \<open>full_clean\<close>, then the insert.\<close>

definition Tag_save :: "db \<Rightarrow> string \<Rightarrow> nat \<Rightarrow> (error + tag) \<times> db" where
  "Tag_save d n w =
     (case Tag_full_clean d n w of
        ([], n') \<Rightarrow>
          (let t = \<lparr>tag_id = Suc (tag_seq d), name = n', tag_world = w\<rparr>
           in (Inr t, d\<lparr>tags := tags d @ [t], tag_seq := Suc (tag_seq d)\<rparr>))
      | (msgs, _) \<Rightarrow> (Inl (ValidationError msgs), d))"

definition Tag_get_or_create :: "db \<Rightarrow> string \<Rightarrow> nat \<Rightarrow> (error + tag) \<times> db" where
  "Tag_get_or_create d n w =
     (case get_row (\<lambda>t. name t = n \<and> tag_world t = w) (tags d) of
        Inr t \<Rightarrow> (Inr t, d)
      | Inl e \<Rightarrow> (if e = DoesNotExist then Tag_save d n w else (Inl e, d)))"

text \<open>
  \<open>ContentTag.objects.get_or_create\<close>. \<open>ContentTag\<close> has no \<open>save\<close> of its own, so the
  new row is inserted without validation; an object id of \<open>None\<close> violates the NOT NULL
  column and the insert raises \<open>IntegrityError\<close>.
\<close>

definition content_tag_matches :: "kind \<Rightarrow> nat option \<Rightarrow> nat \<Rightarrow> content_tag \<Rightarrow> bool" where
  "content_tag_matches k oid t c \<longleftrightarrow>
     content_type c = k \<and> Some (object_id c) = oid \<and> tag_ref c = t"

definition ContentTag_get_or_create ::
  "db \<Rightarrow> kind \<Rightarrow> nat option \<Rightarrow> nat \<Rightarrow> (error + content_tag) \<times> db" where
  "ContentTag_get_or_create d k oid t =
     (case get_row (content_tag_matches k oid t) (content_tags d) of
        Inr c \<Rightarrow> (Inr c, d)
      | Inl e \<Rightarrow>
          (if e = DoesNotExist then
             (case oid of
                None \<Rightarrow> (Inl IntegrityError, d)
              | Some i \<Rightarrow>
                  (let c = \<lparr>content_tag_id = Suc (content_tag_seq d), content_type = k,
                            object_id = i, tag_ref = t\<rparr>
                   in (Inr c, d\<lparr>content_tags := content_tags d @ [c],
                                 content_tag_seq := Suc (content_tag_seq d)\<rparr>)))
           else (Inl e, d)))"

text \<open>\<open>ContentBase.add_tag\<close>.\<close>

definition add_tag :: "db \<Rightarrow> content_base \<Rightarrow> string \<Rightarrow> (error + content_tag) \<times> db" where
  "add_tag d self tag_name =
     (let tag_name = py_lower (py_strip tag_name) in
      if tag_name = [] then (Inl (ValidationError [''Tag name cannot be empty'']), d)
      else
        (case Tag_get_or_create d tag_name (world self) of
           (Inl e, d1) \<Rightarrow> (Inl e, d1)
         | (Inr tag, d1) \<Rightarrow> ContentTag_get_or_create d1 (kind self) (pk self) (tag_id tag)))"

text \<open>
  The default manager of a content model (\<open>SoftDeleteManager.get_queryset\<close>): the rows
  of that kind that are not soft-deleted; \<open>all_objects\<close> has them all.
\<close>

definition objects :: "db \<Rightarrow> kind \<Rightarrow> content_base list" where
  "objects d k = filter (\<lambda>c. kind c = k \<and> \<not> is_deleted c) (contents d)"

definition all_objects :: "db \<Rightarrow> kind \<Rightarrow> content_base list" where
  "all_objects d k = filter (\<lambda>c. kind c = k) (contents d)"

text \<open>
  \<open>Meta.ordering = ['-created_at']\<close> and \<open>list.sort(key=created_at, reverse=True)\<close>:
  newest first, rows with equal \<open>created_at\<close> in the order they had before (Python's
  sort is stable, also with \<open>reverse\<close>; for the database the rows of a table are taken
  in table order).
\<close>

definition newest_first :: "content_base list \<Rightarrow> content_base list" where
  "newest_first xs = rev (sort_key created_at (rev xs))"

text \<open>\<open>cls.objects.filter(id__in=content_ids, world=world)\<close>.\<close>

definition filter_id_in_world :: "db \<Rightarrow> kind \<Rightarrow> nat set \<Rightarrow> nat \<Rightarrow> content_base list" where
  "filter_id_in_world d k content_ids w =
     newest_first
       (filter (\<lambda>c. (case pk c of None \<Rightarrow> False | Some i \<Rightarrow> i \<in> content_ids) \<and> world c = w)
          (objects d k))"

text \<open>The object ids associated with a tag, for one content type.\<close>

definition tag_content_ids :: "db \<Rightarrow> kind \<Rightarrow> tag \<Rightarrow> nat set" where
  "tag_content_ids d k t =
     set (map object_id
            (filter (\<lambda>c. tag_ref c = tag_id t \<and> content_type c = k) (content_tags d)))"

text \<open>The loop of the \<open>match_all\<close> branch: \<open>content_ids\<close> starts as \<open>None\<close>.\<close>

fun match_all_ids :: "db \<Rightarrow> kind \<Rightarrow> tag list \<Rightarrow> nat set option \<Rightarrow> nat set option" where
  "match_all_ids d k [] content_ids = content_ids"
| "match_all_ids d k (t # ts) content_ids =
     match_all_ids d k ts
       (case content_ids of
          None \<Rightarrow> Some (tag_content_ids d k t)
        | Some ids \<Rightarrow> Some (ids \<inter> tag_content_ids d k t))"

text \<open>
  \<open>ContentBase.get_content_by_tags\<close>, a class method: \<open>k\<close> is the class. \<open>tag_names\<close> is
  a comma-separated string (\<open>Inl\<close>) or a list of names (\<open>Inr\<close>). The tags are taken in
  table order; the source gets them ordered by name, which changes neither the
  intersection nor the union.
\<close>

definition get_content_by_tags ::
  "db \<Rightarrow> kind \<Rightarrow> nat \<Rightarrow> string + string list \<Rightarrow> bool \<Rightarrow> content_base list" where
  "get_content_by_tags d k w tag_names match_all =
     (let names0 = (case tag_names of
                      Inl s \<Rightarrow> map (\<lambda>n. py_lower (py_strip n)) (py_split_comma s)
                    | Inr ns \<Rightarrow> map (\<lambda>n. py_lower (py_strip n)) ns);
          names = filter (\<lambda>n. n \<noteq> []) names0
      in if names = [] then []
         else
           (let tgs = filter (\<lambda>t. name t \<in> set names \<and> tag_world t = w) (tags d)
            in if match_all then
                 (case match_all_ids d k tgs None of
                    None \<Rightarrow> []
                  | Some content_ids \<Rightarrow>
                      if content_ids = {} then []
                      else filter_id_in_world d k content_ids w)
               else
                 remdups
                   (filter_id_in_world d k
                      (set (map object_id
                              (filter (\<lambda>c. tag_ref c \<in> tag_id ` set tgs \<and> content_type c = k)
                                 (content_tags d)))) w)))"

text \<open>
  The two \<open>unique_together\<close> constraints of the tagging tables: (name, world) is a key
  of \<open>Tag\<close>, (content type, object id, tag) a key of \<open>ContentTag\<close>.
\<close>

definition tag_key :: "tag \<Rightarrow> string \<times> nat" where
  "tag_key t = (name t, tag_world t)"

definition content_tag_key :: "content_tag \<Rightarrow> kind \<times> nat \<times> nat" where
  "content_tag_key c = (content_type c, object_id c, tag_ref c)"

definition tags_wf :: "db \<Rightarrow> bool" where
  "tags_wf d \<longleftrightarrow>
     distinct (map tag_key (tags d)) \<and> distinct (map content_tag_key (content_tags d))"

section \<open>Entity store and immutability guard\<close>

text \<open>
  \<open>title__iexact\<close> on the database of the default settings
  (worldbuilding/settings/development.py: SQLite). Django compiles the look-up to
  \<open>LIKE\<close> with the wildcard characters of the argument escaped, and SQLite's \<open>LIKE\<close>
  ignores the case of the letters A to Z only: equality up to the case of ASCII
  letters.
\<close>

definition ascii_lower_char :: "char \<Rightarrow> char" where
  "ascii_lower_char c =
     (if 65 \<le> (of_char c :: nat) \<and> (of_char c :: nat) \<le> 90
      then char_of ((of_char c :: nat) + 32) else c)"

definition iexact :: "string \<Rightarrow> string \<Rightarrow> bool" where
  "iexact a b \<longleftrightarrow> map ascii_lower_char a = map ascii_lower_char b"

text \<open>\<open>self.__class__.__name__.lower()\<close>.\<close>

fun class_name :: "kind \<Rightarrow> string" where
  "class_name Page = ''page''"
| "class_name Essay = ''essay''"
| "class_name Character = ''character''"
| "class_name Story = ''story''"
| "class_name Image = ''image''"

text \<open>
  \<open>ContentBase.clean\<close>: the first check that fails raises \<open>ContentValidationError\<close>
  with its field and code. The record always has a world and an author, so the two
  presence checks do not appear. The duplicate check goes through the default manager
  \<open>objects\<close>, compares the stored titles with the trimmed title of the instance, and
  leaves out the row of the instance itself.
\<close>

definition ContentBase_clean :: "db \<Rightarrow> content_base \<Rightarrow> error option" where
  "ContentBase_clean d self =
     (if title self = [] \<or> py_strip (title self) = []
      then Some (ContentValidationError ''title'' ''required'')
      else if length (py_strip (title self)) < 3
      then Some (ContentValidationError ''title'' ''min_length'')
      else if length (py_strip (title self)) > 300
      then Some (ContentValidationError ''title'' ''max_length'')
      else if content self = [] \<or> py_strip (content self) = []
      then Some (ContentValidationError ''content'' ''required'')
      else if length (py_strip (content self)) < 10
      then Some (ContentValidationError ''content'' ''min_length'')
      else if list_ex (\<lambda>c. world c = world self \<and> iexact (title c) (py_strip (title self)) \<and>
                            pk c \<noteq> pk self) (objects d (kind self))
      then Some (ContentValidationError ''title'' ''unique_within_world'')
      else None)"

text \<open>
  \<open>full_clean\<close> of a content instance. \<open>clean_fields\<close> runs first and its errors are
  collected. \<open>clean\<close> runs next: the \<open>clean\<close> of the instance's class calls
  \<open>ContentBase.clean\<close> first and makes its own checks after it. A \<open>ValidationError\<close>
  raised there is collected with the field errors; \<open>ContentValidationError\<close> and
  \<open>FileUploadError\<close> are no \<open>ValidationError\<close>, so they leave \<open>full_clean\<close> at once.
  When \<open>ContentBase.clean\<close> passes, the only error \<open>clean_fields\<close> can still hold for
  the common columns is the \<open>max_length = 300\<close> of the untrimmed title; the title
  comes before the columns of the class in the order of the fields. No content model
  has a unique column or a constraint, so nothing is left for \<open>validate_unique\<close> and
  \<open>validate_constraints\<close>.
\<close>

definition ContentBase_full_clean :: "db \<Rightarrow> content_base \<Rightarrow> error option" where
  "ContentBase_full_clean d self =
     (let field_errors =
            (if length (title self) > 300
             then [max_length_message 300 (length (title self))] else []) @
            own_field_errors self
      in case ContentBase_clean d self of
           Some e \<Rightarrow> Some e
         | None \<Rightarrow>
             (case own_clean self of
                Some (ValidationError msgs) \<Rightarrow> Some (ValidationError (field_errors @ msgs))
              | Some e \<Rightarrow> Some e
              | None \<Rightarrow>
                  if field_errors = [] then None else Some (ValidationError field_errors)))"

text \<open>
  \<open>models.Model.save\<close> on a content table. Without a primary key the row is inserted
  under the next id of the table's sequence, with \<open>created_at\<close> set by
  \<open>auto_now_add\<close>; with a primary key the row of that key is overwritten with all the
  fields of the instance. \<open>force_update\<close> refuses to insert. (The insert under a given
  key, last branch, is reached by no caller below.) The result carries the instance
  as the call leaves it.
\<close>

definition row_is :: "content_base \<Rightarrow> content_base \<Rightarrow> bool" where
  "row_is self c \<longleftrightarrow> kind c = kind self \<and> pk c = pk self"

definition Model_save :: "db \<Rightarrow> content_base \<Rightarrow> bool \<Rightarrow> int \<Rightarrow> (error + content_base) \<times> db" where
  "Model_save d self force_update now =
     (case pk self of
        None \<Rightarrow>
          if force_update then (Inl ValueError, d)
          else
            (let i = Suc (content_seq d (kind self));
                 row = self\<lparr>pk := Some i, created_at := now\<rparr>
             in (Inr row, d\<lparr>contents := contents d @ [row],
                             content_seq := (content_seq d)(kind self := i)\<rparr>))
      | Some i \<Rightarrow>
          if list_ex (row_is self) (contents d)
          then (Inr self,
                d\<lparr>contents := map (\<lambda>c. if row_is self c then self else c) (contents d)\<rparr>)
          else if force_update then (Inl DatabaseError, d)
          else
            (let row = self\<lparr>created_at := now\<rparr>
             in (Inr row, d\<lparr>contents := contents d @ [row]\<rparr>)))"

text \<open>
  \<open>ImmutableModelMixin.save\<close>. \<open>if self.pk\<close> is Python truth: a key that is set and not
  zero. \<open>current\<close> is read through \<open>all_objects\<close>, soft-deleted rows included. The
  write goes through as soon as one field of the soft-delete triad differs from the
  stored row.
\<close>

definition pk_truthy :: "content_base \<Rightarrow> bool" where
  "pk_truthy self \<longleftrightarrow> (case pk self of None \<Rightarrow> False | Some i \<Rightarrow> i \<noteq> 0)"

definition ImmutableModelMixin_save ::
  "db \<Rightarrow> content_base \<Rightarrow> bool \<Rightarrow> int \<Rightarrow> (error + content_base) \<times> db" where
  "ImmutableModelMixin_save d self force_update now =
     (if pk_truthy self \<and> \<not> force_update then
        (case List.find (row_is self) (contents d) of
           Some current \<Rightarrow>
             if is_deleted self \<noteq> is_deleted current \<or>
                deleted_at self \<noteq> deleted_at current \<or>
                deleted_by self \<noteq> deleted_by current
             then Model_save d self force_update now
             else (Inl (ImmutabilityViolationError (class_name (kind self)) (pk self)), d)
         | None \<Rightarrow> (Inl (ImmutabilityViolationError (class_name (kind self)) (pk self)), d))
      else Model_save d self force_update now)"

text \<open>
  \<open>ContentBase.save\<close>: \<open>full_clean\<close>, then the next \<open>save\<close> of the method resolution
  order (\<open>SoftDeleteMixin\<close> has none, so it is \<open>ImmutableModelMixin.save\<close>), then the
  contribution counter of the author for a new row. \<open>Essay\<close>, \<open>Story\<close> and \<open>Image\<close>
  recompute columns of their own before they call it.
\<close>

definition ContentBase_save ::
  "db \<Rightarrow> content_base \<Rightarrow> bool \<Rightarrow> int \<Rightarrow> (error + content_base) \<times> db" where
  "ContentBase_save d self force_update now =
     (case ContentBase_full_clean d self of
        Some e \<Rightarrow> (Inl e, d)
      | None \<Rightarrow>
          (let is_new = (pk self = None) in
           case ImmutableModelMixin_save d self force_update now of
             (Inl e, d1) \<Rightarrow> (Inl e, d1)
           | (Inr saved_self, d1) \<Rightarrow>
               if is_new
               then (Inr saved_self,
                     d1\<lparr>contribution_count :=
                          (contribution_count d1)
                            (author self := contribution_count d1 (author self) + 1)\<rparr>)
               else (Inr saved_self, d1)))"

text \<open>
  \<open>SoftDeleteMixin.soft_delete\<close> and \<open>restore\<close>: they set the triad on the instance and
  call \<open>super().save(force_update=True)\<close>, which from \<open>SoftDeleteMixin\<close> is
  \<open>ImmutableModelMixin.save\<close>; \<open>ContentBase.save\<close> and its validation are not run.
\<close>

definition soft_delete ::
  "db \<Rightarrow> content_base \<Rightarrow> nat option \<Rightarrow> int \<Rightarrow> (error + content_base) \<times> db" where
  "soft_delete d self user now =
     ImmutableModelMixin_save d
       (self\<lparr>is_deleted := True, deleted_at := Some now, deleted_by := user\<rparr>) True now"

definition restore :: "db \<Rightarrow> content_base \<Rightarrow> int \<Rightarrow> (error + content_base) \<times> db" where
  "restore d self now =
     ImmutableModelMixin_save d
       (self\<lparr>is_deleted := False, deleted_at := None, deleted_by := None\<rparr>) True now"

text \<open>
  \<open>ImmutableModelMixin.delete\<close>: every content model has \<open>soft_delete\<close>, so the first
  branch is taken and no row is removed.
\<close>

definition ContentBase_delete ::
  "db \<Rightarrow> content_base \<Rightarrow> nat option \<Rightarrow> int \<Rightarrow> (error + content_base) \<times> db" where
  "ContentBase_delete d self user now = soft_delete d self user now"


text \<open>Primary keys are a key of each content table and come from its sequence.\<close>

definition contents_wf :: "db \<Rightarrow> bool" where
  "contents_wf d \<longleftrightarrow>
     distinct (map (\<lambda>c. (kind c, pk c)) (contents d)) \<and>
     list_all (\<lambda>c. case pk c of None \<Rightarrow> False | Some i \<Rightarrow> i \<le> content_seq d (kind c))
       (contents d)"

section \<open>Timeline\<close>

text \<open>
  \<open>__icontains\<close> on the database of the default settings: \<open>LIKE\<close> with the escaped
  argument between two \<open>%\<close>, so the argument occurs in the column value, up to the case
  of ASCII letters.
\<close>

fun suffixes_of :: "'a list \<Rightarrow> 'a list list" where
  "suffixes_of [] = [[]]"
| "suffixes_of (x # xs) = (x # xs) # suffixes_of xs"

definition icontains :: "string \<Rightarrow> string \<Rightarrow> bool" where
  "icontains s sub \<longleftrightarrow>
     list_ex (\<lambda>t. take (length sub) t = map ascii_lower_char sub)
       (suffixes_of (map ascii_lower_char s))"

text \<open>
  Python's \<open>xs[lo:hi]\<close> for integers \<open>lo\<close> and \<open>hi\<close>: a negative index counts from the
  end, both indices are clamped to the list, and the slice is empty when \<open>hi\<close> does
  not come after \<open>lo\<close>.
\<close>

definition py_slice :: "'a list \<Rightarrow> int \<Rightarrow> int \<Rightarrow> 'a list" where
  "py_slice xs lo hi =
     (let n = int (length xs);
          lo' = (if lo < 0 then max 0 (lo + n) else min lo n);
          hi' = (if hi < 0 then max 0 (hi + n) else min hi n)
      in take (nat (hi' - lo')) (drop (nat lo') xs))"

text \<open>
  The query parameters of \<open>WorldViewSet.timeline\<close> after parsing: \<open>limit\<close> and \<open>offset\<close>
  are the integers that \<open>int(...)\<close> returns (default 50 and 0), \<open>start_date\<close> and
  \<open>end_date\<close> are the parsed dates, \<open>None\<close> when the parameter is absent or cannot be
  parsed; the other parameters are the strings as sent, empty when absent.
\<close>

record timeline_params =
  limit_param :: int
  offset_param :: int
  content_types_param :: string
  author_username :: string
  tags_param :: string
  start_date :: "int option"
  end_date :: "int option"
  search_param :: string

text \<open>The content types asked for, with singular names mapped to the plural ones.\<close>

definition type_mapping :: "string \<Rightarrow> string" where
  "type_mapping t =
     (if t = ''page'' then ''pages''
      else if t = ''essay'' then ''essays''
      else if t = ''character'' then ''characters''
      else if t = ''story'' then ''stories''
      else if t = ''image'' then ''images''
      else t)"

definition requested_types :: "timeline_params \<Rightarrow> string list" where
  "requested_types p =
     (if content_types_param p = [] then []
      else map (\<lambda>t. type_mapping (py_lower (py_strip t)))
             (py_split_comma (content_types_param p)))"

text \<open>The dictionary \<open>content_models\<close> of the view: its keys, in the order it is iterated.\<close>

fun type_name :: "kind \<Rightarrow> string" where
  "type_name Page = ''pages''"
| "type_name Essay = ''essays''"
| "type_name Character = ''characters''"
| "type_name Story = ''stories''"
| "type_name Image = ''images''"

definition content_models :: "kind list" where
  "content_models = [Page, Essay, Character, Story, Image]"

text \<open>
  The query set of one model class in the loop of the view, as \<open>list(queryset)\<close>
  evaluates it: the rows of the world that are not soft-deleted, narrowed by each
  filter that is set, in the order of \<open>Meta.ordering\<close>. \<open>username\<close> is the user table,
  read for the author filter.
\<close>

definition timeline_queryset ::
  "db \<Rightarrow> (nat \<Rightarrow> string) \<Rightarrow> nat \<Rightarrow> timeline_params \<Rightarrow> kind \<Rightarrow> content_base list" where
  "timeline_queryset d username w p k =
     (let q0 = filter (\<lambda>c. world c = w) (objects d k);
          q1 = (if author_username p \<noteq> []
                then filter (\<lambda>c. icontains (username (author c)) (author_username p)) q0
                else q0);
          q2 = (case start_date p of
                  Some s \<Rightarrow> filter (\<lambda>c. s \<le> created_at c) q1
                | None \<Rightarrow> q1);
          q3 = (case end_date p of
                  Some e \<Rightarrow> filter (\<lambda>c. created_at c \<le> e) q2
                | None \<Rightarrow> q2);
          q4 = (if search_param p \<noteq> []
                then filter (\<lambda>c. icontains (title c) (search_param p) \<or>
                                  icontains (content c) (search_param p)) q3
                else q3);
          tag_names = map (\<lambda>n. py_lower (py_strip n))
                        (filter (\<lambda>n. py_strip n \<noteq> []) (py_split_comma (tags_param p)));
          q5 = (if tags_param p \<noteq> [] \<and> tag_names \<noteq> []
                then filter (\<lambda>c. pk c \<in> pk ` set (get_content_by_tags d k w (Inr tag_names) False))
                       q4
                else q4)
      in newest_first q5)"

text \<open>
  \<open>all_content\<close> after the loop over the model classes (the classes that are not asked
  for are skipped), and after \<open>all_content.sort(key=lambda x: x.created_at,
  reverse=True)\<close>.
\<close>

definition timeline_gathered ::
  "db \<Rightarrow> (nat \<Rightarrow> string) \<Rightarrow> nat \<Rightarrow> timeline_params \<Rightarrow> content_base list" where
  "timeline_gathered d username w p =
     concat (map (timeline_queryset d username w p)
               (filter (\<lambda>k. requested_types p = [] \<or> type_name k \<in> set (requested_types p))
                  content_models))"

definition timeline_sorted ::
  "db \<Rightarrow> (nat \<Rightarrow> string) \<Rightarrow> nat \<Rightarrow> timeline_params \<Rightarrow> content_base list" where
  "timeline_sorted d username w p = newest_first (timeline_gathered d username w p)"

text \<open>
  \<open>WorldViewSet.timeline\<close>: the page \<open>all_content[offset:offset + limit]\<close> of the sorted
  list, and \<open>total_count\<close>.
\<close>

definition timeline ::
  "db \<Rightarrow> (nat \<Rightarrow> string) \<Rightarrow> nat \<Rightarrow> timeline_params \<Rightarrow> content_base list \<times> nat" where
  "timeline d username w p =
     (let limit = min (limit_param p) 200;
          offset = offset_param p;
          all_content = timeline_sorted d username w p
      in (py_slice all_content offset (offset + limit), length all_content))"

text \<open>\<open>World.get_content_timeline\<close>.\<close>

definition get_content_timeline :: "db \<Rightarrow> nat \<Rightarrow> content_base list" where
  "get_content_timeline d w =
     newest_first
       (concat (map (\<lambda>k. newest_first (filter (\<lambda>c. world c = w) (objects d k)))
                  [Page, Essay, Character, Story, Image]))"

section \<open>Collaboration metrics\<close>

text \<open>
  \<open>ContentBase.get_tags\<close>: the tags whose id is in an association of the instance.
  Only the number of the tags is read below, so the order by name is left out.
\<close>

definition get_tags :: "db \<Rightarrow> content_base \<Rightarrow> tag list" where
  "get_tags d self =
     (let tag_ids = map tag_ref
                      (filter (\<lambda>c. content_type c = kind self \<and> Some (object_id c) = pk self)
                         (content_tags d))
      in filter (\<lambda>t. tag_id t \<in> set tag_ids) (tags d))"

text \<open>
  \<open>ContentBaseSerializer.get_collaboration_info\<close> (collab/serializers.py). The two
  lists of user names are built from Python sets, so they are sets here.
\<close>

record collaboration_info =
  links_to_count :: nat
  linked_from_count :: nat
  tags_count :: nat
  references_other_authors :: "string set"
  referenced_by_authors :: "string set"
  is_collaborative :: bool
  collaboration_score :: nat

definition get_collaboration_info ::
  "db \<Rightarrow> (nat \<Rightarrow> string) \<Rightarrow> content_base \<Rightarrow> collaboration_info" where
  "get_collaboration_info d username obj =
     (let linked_count = length (get_linked_content d obj);
          linking_count = length (get_content_linking_to_this d obj);
          tags_count = length (get_tags d obj);
          referenced_authors =
            set (map (\<lambda>c. username (author c))
                   (filter (\<lambda>c. author c \<noteq> author obj) (get_linked_content d obj)));
          referencing_authors =
            set (map (\<lambda>c. username (author c))
                   (filter (\<lambda>c. author c \<noteq> author obj) (get_content_linking_to_this d obj)))
      in \<lparr>links_to_count = linked_count,
          linked_from_count = linking_count,
          tags_count = tags_count,
          references_other_authors = referenced_authors,
          referenced_by_authors = referencing_authors,
          is_collaborative = (referenced_authors \<noteq> {} \<or> referencing_authors \<noteq> {}),
          collaboration_score = linked_count + linking_count + tags_count\<rparr>)"

text \<open>
  The \<open>collaboration_metrics\<close> of \<open>ContentViewSetMixin.attribution_details\<close>
  (collab/views/content_views.py). An entry of \<open>references_made\<close> or
  \<open>references_received\<close> is kept as the content object with its \<open>is_cross_author\<close>
  flag.
\<close>

record collaboration_metrics =
  total_references_made :: nat
  total_references_received :: nat
  cross_author_references_made :: nat
  cross_author_references_received :: nat
  metrics_collaboration_score :: nat
  metrics_is_collaborative :: bool
  collaboration_type :: string

definition attribution_details :: "db \<Rightarrow> content_base \<Rightarrow> collaboration_metrics" where
  "attribution_details d content_obj =
     (let references_made =
            map (\<lambda>linked. (linked, author linked \<noteq> author content_obj))
              (get_linked_content d content_obj);
          references_received =
            map (\<lambda>linking. (linking, author linking \<noteq> author content_obj))
              (get_content_linking_to_this d content_obj);
          made = length (filter snd references_made);
          received = length (filter snd references_received)
      in \<lparr>total_references_made = length references_made,
          total_references_received = length references_received,
          cross_author_references_made = made,
          cross_author_references_received = received,
          metrics_collaboration_score = made + received,
          metrics_is_collaborative = (made > 0 \<or> received > 0),
          collaboration_type =
            (if made > 0 \<and> received > 0 then ''bidirectional''
             else if made > 0 then ''outgoing''
             else if received > 0 then ''incoming''
             else ''standalone'')\<rparr>)"

section \<open>Fixtures\<close>

text \<open>
  Concrete rows for the examples below, in the style of the fixtures of
  collab/test_models.py: an empty database and saved instances with given kind, primary
  key, title, author, world and creation time.
\<close>

definition empty_db :: db where
  "empty_db = \<lparr>contents = [], content_seq = (\<lambda>k. 0), tags = [], tag_seq = 0,
     content_tags = [], content_tag_seq = 0, content_links = [], content_link_seq = 0,
     contribution_count = (\<lambda>u. 0)\<rparr>"

definition saved :: "kind \<Rightarrow> nat \<Rightarrow> string \<Rightarrow> nat \<Rightarrow> nat \<Rightarrow> int \<Rightarrow> content_base" where
  "saved k i t a w ts = \<lparr>pk = Some i, kind = k, title = t, content = ''Original content'',
     author = a, world = w, created_at = ts, is_deleted = False, deleted_at = None,
     deleted_by = None, own_field_errors = [], own_clean = None\<rparr>"

definition page1 :: content_base where "page1 = saved Page 1 ''Test Page 1'' 1 1 10"
definition page2 :: content_base where "page2 = saved Page 2 ''Test Page 2'' 1 1 20"
definition character1 :: content_base where "character1 = saved Character 1 ''Hero'' 2 1 30"
definition other_page :: content_base where "other_page = saved Page 3 ''Other Page'' 1 2 40"

definition link_row :: "nat \<Rightarrow> kind \<Rightarrow> nat \<Rightarrow> kind \<Rightarrow> nat \<Rightarrow> content_link" where
  "link_row n fk i tk j = \<lparr>link_id = n, from_content_type = fk, from_object_id = i,
     to_content_type = tk, to_object_id = j\<rparr>"

text \<open>Two pages of one world, a character of a second author, a page of another world.\<close>

definition db_content :: db where
  "db_content = empty_db\<lparr>contents := [page1, page2, character1, other_page]\<rparr>"

text \<open>The same with page1 and page2 linked in both directions.\<close>

definition db_linked :: db where
  "db_linked = db_content\<lparr>content_links := [link_row 1 Page 1 Page 2, link_row 2 Page 2 Page 1],
     content_link_seq := 2\<rparr>"

text \<open>
  The same with the single row page1 to page2, as \<open>ContentLink.objects.create\<close> leaves it
  (test_content_link_creation).
\<close>

definition db_one_way :: db where
  "db_one_way = db_content\<lparr>content_links := [link_row 1 Page 1 Page 2],
     content_link_seq := 1\<rparr>"

text \<open>A tag name of 101 characters.\<close>

definition long_name :: string where
  "long_name = replicate 101 (CHR ''a'')"

definition tag_row :: "nat \<Rightarrow> string \<Rightarrow> nat \<Rightarrow> tag" where
  "tag_row n s w = \<lparr>tag_id = n, name = s, tag_world = w\<rparr>"

definition content_tag_row :: "nat \<Rightarrow> kind \<Rightarrow> nat \<Rightarrow> nat \<Rightarrow> content_tag" where
  "content_tag_row n k i t = \<lparr>content_tag_id = n, content_type = k, object_id = i, tag_ref = t\<rparr>"

text \<open>
  World 1 has the tags fantasy and adventure; page1 carries both, page2 only fantasy.
\<close>

definition db_tagged :: db where
  "db_tagged = db_content\<lparr>
     tags := [tag_row 1 ''fantasy'' 1, tag_row 2 ''adventure'' 1], tag_seq := 2,
     content_tags := [content_tag_row 1 Page 1 1, content_tag_row 2 Page 1 2,
                      content_tag_row 3 Page 2 1],
     content_tag_seq := 3\<rparr>"

text \<open>
  An instance that has not been saved, as \<open>Page(title=..., content=..., author=...,
  world=...)\<close> builds it, with valid values in the columns of its own class (for a
  character: a full name); \<open>created_at\<close> is set by the insert.
\<close>

definition draft :: "kind \<Rightarrow> string \<Rightarrow> nat \<Rightarrow> nat \<Rightarrow> content_base" where
  "draft k t a w = \<lparr>pk = None, kind = k, title = t, content = ''Original content'',
     author = a, world = w, created_at = 0, is_deleted = False, deleted_at = None,
     deleted_by = None, own_field_errors = [], own_clean = None\<rparr>"





text \<open>The user table for the examples, and a request without query parameters.\<close>

definition usernames :: "nat \<Rightarrow> string" where
  "usernames u = (if u = 1 then ''alice'' else ''bob'')"

definition default_params :: timeline_params where
  "default_params = \<lparr>limit_param = 50, offset_param = 0, content_types_param = [],
     author_username = [], tags_param = [], start_date = None, end_date = None,
     search_param = []\<rparr>"

text \<open>
  Two worlds of two entries with the same creation time: a page with id 1 and a
  character with id 2, and a character with id 1 (inserted first) and a page with
  id 2.
\<close>

definition db_tie1 :: db where
  "db_tie1 = empty_db\<lparr>contents :=
     [saved Page 1 ''First page'' 1 1 10, saved Character 2 ''Second hero'' 2 1 10]\<rparr>"

definition db_tie2 :: db where
  "db_tie2 = empty_db\<lparr>contents :=
     [saved Character 1 ''First hero'' 2 1 10, saved Page 2 ''Second page'' 1 1 10]\<rparr>"

text \<open>
  The database after user 1 has created a page at time 1, then a character at time 2,
  then a story at time 3.
\<close>

definition db_one :: db where
  "db_one = empty_db\<lparr>contents := [saved Page 1 ''Page P1'' 1 1 1],
     content_seq := (\<lambda>k. 0)(Page := 1), contribution_count := (\<lambda>u. 0)(1 := 1)\<rparr>"

definition db_two :: db where
  "db_two = empty_db\<lparr>contents :=
       [saved Page 1 ''Page P1'' 1 1 1, saved Character 1 ''Character C1'' 1 1 2],
     content_seq := (\<lambda>k. 0)(Page := 1, Character := 1),
     contribution_count := (\<lambda>u. 0)(1 := 2)\<rparr>"

definition db_three :: db where
  "db_three = empty_db\<lparr>contents :=
       [saved Page 1 ''Page P1'' 1 1 1, saved Character 1 ''Character C1'' 1 1 2,
        saved Story 1 ''Story S1'' 1 1 3],
     content_seq := (\<lambda>k. 0)(Page := 1, Character := 1, Story := 1),
     contribution_count := (\<lambda>u. 0)(1 := 3)\<rparr>"

section \<open>Properties of the linking subsystem\<close>

lemma link_matches_key:
  "link_matches fk (Some i) tk (Some j) l \<longleftrightarrow> link_key l = (fk, i, tk, j)"
  by (auto simp: link_matches_def link_key_def)

lemma link_matches_None:
  "\<not> link_matches fk None tk tid l" "\<not> link_matches fk fid tk None l"
  by (auto simp: link_matches_def)

lemma filter_eq_unique: "distinct xs \<Longrightarrow> x \<in> set xs \<Longrightarrow> filter (\<lambda>y. y = x) xs = [x]"
proof (induction xs)
  case Nil
  then show ?case by simp
next
  case (Cons a xs)
  show ?case
  proof (cases "a = x")
    case True
    with Cons.prems have "x \<notin> set xs" by simp
    then have "filter (\<lambda>y. y = x) xs = []" by (induction xs) auto
    with True show ?thesis by simp
  next
    case False
    with Cons.prems have "x \<in> set xs" "distinct xs" by simp_all
    then have "filter (\<lambda>y. y = x) xs = [x]" by (rule Cons.IH[rotated])
    with False show ?thesis by simp
  qed
qed

lemma filter_key_unique:
  assumes "distinct (map f xs)" "x \<in> set xs"
  shows "filter (\<lambda>y. f y = f x) xs = [x]"
proof -
  from assms(1) have inj: "inj_on f (set xs)" and d: "distinct xs"
    by (simp_all add: distinct_map)
  have "filter (\<lambda>y. f y = f x) xs = filter (\<lambda>y. y = x) xs"
  proof (rule filter_cong[OF refl])
    fix y assume "y \<in> set xs"
    with inj assms(2) show "(f y = f x) = (y = x)" by (simp add: inj_on_eq_iff)
  qed
  with filter_eq_unique[OF d assms(2)] show ?thesis by simp
qed

lemma get_row_absent:
  "\<forall>r\<in>set rows. \<not> P r \<Longrightarrow> get_row P rows = Inl DoesNotExist"
  by (simp add: get_row_def filter_empty_conv[THEN iffD2])

lemma get_row_keyed:
  assumes "distinct (map f rows)" "x \<in> set rows"
  shows "get_row (\<lambda>y. f y = f x) rows = Inr x"
  using filter_key_unique[OF assms] by (simp add: get_row_def)

lemma get_link_present:
  assumes "distinct (map link_key ls)" "l \<in> set ls" "link_key l = (fk, i, tk, j)"
  shows "get_row (link_matches fk (Some i) tk (Some j)) ls = Inr l"
proof -
  have eq: "link_matches fk (Some i) tk (Some j) = (\<lambda>y. link_key y = link_key l)"
    by (rule ext) (simp only: link_matches_key assms(3))
  show ?thesis unfolding eq by (rule get_row_keyed[OF assms(1,2)])
qed

lemma get_link_absent:
  assumes "(fk, i, tk, j) \<notin> link_key ` set ls"
  shows "get_row (link_matches fk (Some i) tk (Some j)) ls = Inl DoesNotExist"
proof (rule get_row_absent, rule ballI, rule notI)
  fix r assume r: "r \<in> set ls" and "link_matches fk (Some i) tk (Some j) r"
  then have "link_key r = (fk, i, tk, j)" by (simp only: link_matches_key)
  then have "(fk, i, tk, j) \<in> link_key ` set ls" using r by (rule image_eqI[OF sym])
  with assms show False by (rule notE)
qed

lemma ContentLink_save_ok:
  assumes "(fk, i) \<noteq> (tk, j)"
  shows "ContentLink_save d fk (Some i) tk (Some j) =
     (Inr \<lparr>link_id = Suc (content_link_seq d), from_content_type = fk,
            from_object_id = i, to_content_type = tk, to_object_id = j\<rparr>,
      d\<lparr>content_links := content_links d @
           [\<lparr>link_id = Suc (content_link_seq d), from_content_type = fk,
             from_object_id = i, to_content_type = tk, to_object_id = j\<rparr>],
        content_link_seq := Suc (content_link_seq d)\<rparr>)"
  using assms by (auto simp: ContentLink_save_def ContentLink_full_clean_def Let_def)

lemma ContentLink_save_self:
  "ContentLink_save d k (Some i) k (Some i) =
     (Inl (ValidationError [''Content cannot link to itself'']), d)"
  by (simp add: ContentLink_save_def ContentLink_full_clean_def)


lemma ContentLink_save_None:
  assumes "fid = None \<or> tid = None"
  shows "ContentLink_save d fk fid tk tid =
           (Inl (ValidationError (ContentLink_full_clean fk fid tk tid)), d)"
proof (cases "ContentLink_full_clean fk fid tk tid")
  case Nil
  with assms show ?thesis
    by (auto simp: ContentLink_full_clean_def split: if_splits)
next
  case (Cons m ms)
  then show ?thesis by (simp add: ContentLink_save_def)
qed

lemma get_row_None:
  assumes "fid = None \<or> tid = None"
  shows "get_row (link_matches fk fid tk tid) ls = Inl DoesNotExist"
  using assms by (intro get_row_absent) (auto simp: link_matches_def)

lemma goc_None:
  assumes "fid = None \<or> tid = None"
  shows "ContentLink_get_or_create d fk fid tk tid =
           (Inl (ValidationError (ContentLink_full_clean fk fid tk tid)), d)"
  by (simp add: ContentLink_get_or_create_def get_row_None[OF assms]
        ContentLink_save_None[OF assms])

lemma wf_no_self: "links_wf d \<Longrightarrow> (k, i, k, i) \<notin> link_keys d"
  by (auto simp: links_wf_def link_keys_def link_key_def list_all_iff)

lemma goc_self:
  assumes "links_wf d"
  shows "ContentLink_get_or_create d k (Some i) k (Some i) =
           (Inl (ValidationError [''Content cannot link to itself'']), d)"
proof -
  have "(k, i, k, i) \<notin> link_key ` set (content_links d)"
    using wf_no_self[OF assms] by (simp add: link_keys_def)
  then show ?thesis
    by (simp add: ContentLink_get_or_create_def get_link_absent ContentLink_save_self)
qed

lemma goc_present:
  assumes "links_wf d" "l \<in> set (content_links d)" "link_key l = (fk, i, tk, j)"
  shows "ContentLink_get_or_create d fk (Some i) tk (Some j) = (Inr l, d)"
proof -
  from assms(1) have "distinct (map link_key (content_links d))"
    by (simp add: links_wf_def)
  from get_link_present[OF this assms(2,3)] show ?thesis
    by (simp add: ContentLink_get_or_create_def)
qed

lemma goc_absent:
  assumes "(fk, i, tk, j) \<notin> link_keys d" "(fk, i) \<noteq> (tk, j)"
  shows "ContentLink_get_or_create d fk (Some i) tk (Some j) =
           ContentLink_save d fk (Some i) tk (Some j)"
  using assms(1) by (simp add: ContentLink_get_or_create_def get_link_absent link_keys_def)

lemma save_wf:
  assumes "links_wf d" "(fk, i, tk, j) \<notin> link_keys d" "(fk, i) \<noteq> (tk, j)"
    and "ContentLink_save d fk (Some i) tk (Some j) = (r, d')"
  shows "links_wf d'" "link_keys d' = insert (fk, i, tk, j) (link_keys d)"
    "contents d' = contents d" "\<exists>l. r = Inr l \<and> link_key l = (fk, i, tk, j)"
proof -
  let ?l = "\<lparr>link_id = Suc (content_link_seq d), from_content_type = fk,
            from_object_id = i, to_content_type = tk, to_object_id = j\<rparr>"
  from assms(4) have r: "r = Inr ?l"
    and d': "d' = d\<lparr>content_links := content_links d @ [?l],
                     content_link_seq := Suc (content_link_seq d)\<rparr>"
    by (simp_all add: ContentLink_save_ok[OF assms(3)])
  have k: "link_key ?l = (fk, i, tk, j)" by (simp add: link_key_def)
  from assms(1) have ids: "\<forall>x\<in>set (content_links d). link_id x \<le> content_link_seq d"
    by (simp add: links_wf_def list_all_iff)
  then have fresh: "Suc (content_link_seq d) \<notin> link_id ` set (content_links d)"
    by auto
  from assms(2) have knew: "(fk, i, tk, j) \<notin> link_key ` set (content_links d)"
    by (simp add: link_keys_def)
  show "links_wf d'"
    using assms(1,3) fresh knew ids
    by (auto simp: d' links_wf_def k list_all_iff le_SucI)
  show "link_keys d' = insert (fk, i, tk, j) (link_keys d)"
    by (simp add: d' link_keys_def k)
  show "contents d' = contents d" by (simp add: d')
  show "\<exists>l. r = Inr l \<and> link_key l = (fk, i, tk, j)" using r k by blast
qed

lemma goc_spec:
  assumes "links_wf d" "(fk, i) \<noteq> (tk, j)"
  shows "\<exists>l d'. ContentLink_get_or_create d fk (Some i) tk (Some j) = (Inr l, d') \<and>
           link_key l = (fk, i, tk, j) \<and> links_wf d' \<and>
           link_keys d' = insert (fk, i, tk, j) (link_keys d) \<and>
           ((fk, i, tk, j) \<in> link_keys d \<longrightarrow> d' = d) \<and>
           contents d' = contents d"
proof (cases "(fk, i, tk, j) \<in> link_keys d")
  case True
  then obtain l where l: "l \<in> set (content_links d)" "link_key l = (fk, i, tk, j)"
    by (auto simp: link_keys_def)
  from goc_present[OF assms(1) l] True assms(1) l(2) show ?thesis
    by (simp add: insert_absorb)
next
  case False
  obtain r d' where s: "ContentLink_save d fk (Some i) tk (Some j) = (r, d')"
    by (cases "ContentLink_save d fk (Some i) tk (Some j)")
  from save_wf[OF assms(1) False assms(2) s] goc_absent[OF False assms(2)] s False
  show ?thesis by auto
qed

lemma delete_spec:
  assumes "links_wf d" "l \<in> set (content_links d)"
  shows "links_wf (ContentLink_delete d l)"
    and "link_keys (ContentLink_delete d l) = link_keys d - {link_key l}"
    and "contents (ContentLink_delete d l) = contents d"
proof -
  from assms(1) have inj_id: "inj_on link_id (set (content_links d))"
    and inj_key: "inj_on link_key (set (content_links d))"
    by (simp_all add: links_wf_def distinct_map)
  have set_eq: "set (filter (\<lambda>r. link_id r \<noteq> link_id l) (content_links d)) =
                 set (content_links d) - {l}"
    using inj_id assms(2) by (auto simp: inj_on_eq_iff)
  show "links_wf (ContentLink_delete d l)"
    using assms(1)
    by (auto simp: ContentLink_delete_def links_wf_def distinct_map_filter list_all_iff)
  have "link_key ` (set (content_links d) - {l}) = link_key ` set (content_links d) - link_key ` {l}"
    using inj_key assms(2) by (intro inj_on_image_set_diff[of _ "set (content_links d)"]) auto
  then show "link_keys (ContentLink_delete d l) = link_keys d - {link_key l}"
    by (simp add: ContentLink_delete_def link_keys_def set_eq del: set_filter)
  show "contents (ContentLink_delete d l) = contents d"
    by (simp add: ContentLink_delete_def)
qed

lemma link_to_ok:
  assumes "links_wf d" "world b = world a" "pk a = Some i" "pk b = Some j"
    and "(kind a, i) \<noteq> (kind b, j)"
  shows "\<exists>l d'. link_to d a b = (Inr l, d') \<and>
           link_key l = (kind a, i, kind b, j) \<and> links_wf d' \<and>
           link_keys d' = insert (kind a, i, kind b, j)
                            (insert (kind b, j, kind a, i) (link_keys d)) \<and>
           ((kind a, i, kind b, j) \<in> link_keys d \<and> (kind b, j, kind a, i) \<in> link_keys d
              \<longrightarrow> d' = d) \<and>
           contents d' = contents d"
proof -
  from goc_spec[OF assms(1,5)] obtain l d1 where
    1: "ContentLink_get_or_create d (kind a) (Some i) (kind b) (Some j) = (Inr l, d1)"
      "link_key l = (kind a, i, kind b, j)" "links_wf d1"
      "link_keys d1 = insert (kind a, i, kind b, j) (link_keys d)"
      "(kind a, i, kind b, j) \<in> link_keys d \<longrightarrow> d1 = d"
      "contents d1 = contents d"
    by blast
  from assms(5) have ne: "(kind b, j) \<noteq> (kind a, i)" by auto
  from goc_spec[OF 1(3) ne] obtain l' d2 where
    2: "ContentLink_get_or_create d1 (kind b) (Some j) (kind a) (Some i) = (Inr l', d2)"
      "links_wf d2"
      "link_keys d2 = insert (kind b, j, kind a, i) (link_keys d1)"
      "(kind b, j, kind a, i) \<in> link_keys d1 \<longrightarrow> d2 = d1"
      "contents d2 = contents d1"
    by blast
  have res: "link_to d a b = (Inr l, d2)"
    using assms(2,3,4) 1(1) 2(1) by (simp add: link_to_def)
  have keys: "link_keys d2 = insert (kind a, i, kind b, j)
                 (insert (kind b, j, kind a, i) (link_keys d))"
    using 1(4) 2(3) by auto
  have same: "(kind a, i, kind b, j) \<in> link_keys d \<and> (kind b, j, kind a, i) \<in> link_keys d
                \<longrightarrow> d2 = d"
  proof (intro impI, elim conjE)
    assume A: "(kind a, i, kind b, j) \<in> link_keys d"
      and B: "(kind b, j, kind a, i) \<in> link_keys d"
    from 1(5) A have e1: "d1 = d" by (rule mp)
    from B 1(4) have "(kind b, j, kind a, i) \<in> link_keys d1" by simp
    with 2(4) have "d2 = d1" by (rule mp)
    then show "d2 = d" using e1 by (rule trans)
  qed
  from res 1(2) 2(2) keys same 1(6) 2(5) show ?thesis by simp
qed

lemma link_to_world:
  assumes "world b \<noteq> world a"
  shows "link_to d a b =
           (Inl (ValidationError [''Cannot link content from different worlds'']), d)"
  using assms by (simp add: link_to_def)

lemma link_to_self:
  assumes "links_wf d" "world b = world a" "kind b = kind a" "pk a = Some i" "pk b = Some i"
  shows "link_to d a b = (Inl (ValidationError [''Content cannot link to itself'']), d)"
  using assms by (simp add: link_to_def goc_self)

lemma link_to_None:
  assumes "world b = world a" "pk a = None \<or> pk b = None"
  shows "snd (link_to d a b) = d"
proof -
  from assms(2) have "pk b = None \<or> pk a = None" by auto
  with assms show ?thesis by (simp add: link_to_def goc_None)
qed

lemma link_to_db_cases:
  assumes "links_wf d"
  shows "snd (link_to d a b) = d \<or>
         (\<exists>i j. links_wf (snd (link_to d a b)) \<and>
            link_keys (snd (link_to d a b)) =
              insert (kind a, i, kind b, j) (insert (kind b, j, kind a, i) (link_keys d)))"
proof (cases "world b = world a")
  case False
  then show ?thesis by (simp add: link_to_world)
next
  case w: True
  show ?thesis
  proof (cases "pk a")
    case None
    with w show ?thesis by (simp add: link_to_None)
  next
    case (Some i)
    note a = this
    show ?thesis
    proof (cases "pk b")
      case None
      with w show ?thesis by (simp add: link_to_None)
    next
      case (Some j)
      show ?thesis
      proof (cases "(kind a, i) = (kind b, j)")
        case True
        with assms w a Some show ?thesis by (simp add: link_to_self)
      next
        case False
        from link_to_ok[OF assms w a Some False] show ?thesis by force
      qed
    qed
  qed
qed

lemma unlink_None:
  assumes "pk a = None \<or> pk b = None"
  shows "unlink_from d a b = (Inr False, d)"
  using assms by (simp add: unlink_from_def get_row_None)

lemma unlink_spec:
  assumes "links_wf d" "pk a = Some i" "pk b = Some j"
  shows "\<exists>d'. unlink_from d a b =
            (Inr ((kind a, i, kind b, j) \<in> link_keys d \<and>
                  (kind b, j, kind a, i) \<in> link_keys d), d') \<and>
          links_wf d' \<and>
          link_keys d' = (if (kind a, i, kind b, j) \<in> link_keys d
                          then link_keys d - {(kind a, i, kind b, j), (kind b, j, kind a, i)}
                          else link_keys d) \<and>
          contents d' = contents d"
proof (cases "(kind a, i, kind b, j) \<in> link_keys d")
  case False
  then have "get_row (link_matches (kind a) (Some i) (kind b) (Some j)) (content_links d)
               = Inl DoesNotExist"
    by (simp add: get_link_absent link_keys_def)
  with False assms show ?thesis by (simp add: unlink_from_def)
next
  case True
  then obtain l where l: "l \<in> set (content_links d)" "link_key l = (kind a, i, kind b, j)"
    by (auto simp: link_keys_def)
  from assms(1) have dk: "distinct (map link_key (content_links d))"
    by (simp add: links_wf_def)
  have g1: "get_row (link_matches (kind a) (Some i) (kind b) (Some j)) (content_links d) = Inr l"
    by (rule get_link_present[OF dk l])
  let ?d1 = "ContentLink_delete d l"
  note d1 = delete_spec[OF assms(1) l(1)]
  from True wf_no_self[OF assms(1)] have ne: "(kind a, i, kind b, j) \<noteq> (kind b, j, kind a, i)"
    by auto
  show ?thesis
  proof (cases "(kind b, j, kind a, i) \<in> link_keys d")
    case r: True
    with d1(2) l(2) ne have "(kind b, j, kind a, i) \<in> link_keys ?d1" by auto
    then obtain l' where l': "l' \<in> set (content_links ?d1)" "link_key l' = (kind b, j, kind a, i)"
      by (auto simp: link_keys_def)
    from d1(1) have dk1: "distinct (map link_key (content_links ?d1))"
      by (simp add: links_wf_def)
    have g2: "get_row (link_matches (kind b) (Some j) (kind a) (Some i)) (content_links ?d1) = Inr l'"
      by (rule get_link_present[OF dk1 l'])
    note d2 = delete_spec[OF d1(1) l'(1)]
    have res: "unlink_from d a b = (Inr True, ContentLink_delete ?d1 l')"
      using g1 g2 assms(2,3) by (simp add: unlink_from_def Let_def)
    have "link_keys (ContentLink_delete ?d1 l') =
            link_keys d - {(kind a, i, kind b, j), (kind b, j, kind a, i)}"
      using d2(2) d1(2) l(2) l'(2) by auto
    with res True r d2(1) d2(3) d1(3) show ?thesis by simp
  next
    case r: False
    with d1(2) have "(kind b, j, kind a, i) \<notin> link_keys ?d1" by auto
    then have g2: "get_row (link_matches (kind b) (Some j) (kind a) (Some i)) (content_links ?d1)
                     = Inl DoesNotExist"
      by (simp add: get_link_absent link_keys_def)
    have res: "unlink_from d a b = (Inr False, ?d1)"
      using g1 g2 assms(2,3) by (simp add: unlink_from_def Let_def)
    have "link_keys ?d1 = link_keys d - {(kind a, i, kind b, j), (kind b, j, kind a, i)}"
      using d1(2) l(2) r by auto
    with res True r d1(1) d1(3) show ?thesis by simp
  qed
qed

lemma links_symmetric_iff:
  "links_symmetric d \<longleftrightarrow>
     (\<forall>fk i tk j. (fk, i, tk, j) \<in> link_keys d \<longrightarrow> (tk, j, fk, i) \<in> link_keys d)"
  by (force simp: links_symmetric_def has_link_def list_all_iff link_keys_def link_key_def)

lemma get_row_Inr: "get_row P rows = Inr r \<Longrightarrow> r \<in> set rows \<and> P r"
proof -
  assume a: "get_row P rows = Inr r"
  then have "filter P rows = [r]"
    by (auto simp: get_row_def split: list.splits)
  then have "r \<in> set (filter P rows)" by simp
  then show ?thesis by simp
qed

lemma goc_mem:
  assumes "ContentLink_get_or_create d fk fid tk tid = (Inr l, d')"
  shows "l \<in> set (content_links d')" "set (content_links d) \<subseteq> set (content_links d')"
proof -
  show "l \<in> set (content_links d')"
  proof (cases "get_row (link_matches fk fid tk tid) (content_links d)")
    case (Inr r)
    with assms get_row_Inr[OF Inr] show ?thesis
      by (simp add: ContentLink_get_or_create_def)
  next
    case (Inl e)
    with assms show ?thesis
      by (auto simp: ContentLink_get_or_create_def ContentLink_save_def Let_def
          split: if_splits list.splits option.splits)
  qed
  show "set (content_links d) \<subseteq> set (content_links d')"
  proof (cases "get_row (link_matches fk fid tk tid) (content_links d)")
    case (Inr r)
    with assms show ?thesis by (simp add: ContentLink_get_or_create_def)
  next
    case (Inl e)
    with assms show ?thesis
      by (auto simp: ContentLink_get_or_create_def ContentLink_save_def Let_def
          split: if_splits list.splits option.splits)
  qed
qed

lemma link_to_mem:
  assumes "link_to d a b = (Inr l, d')"
  shows "l \<in> set (content_links d')"
proof -
  from assms obtain d1 l' where
    1: "ContentLink_get_or_create d (kind a) (pk a) (kind b) (pk b) = (Inr l, d1)" and
    2: "ContentLink_get_or_create d1 (kind b) (pk b) (kind a) (pk a) = (Inr l', d')"
    by (auto simp: link_to_def split: if_splits prod.splits sum.splits)
  from goc_mem[OF 1] goc_mem[OF 2] show ?thesis by auto
qed

lemma linked_contentI:
  assumes "l \<in> set (content_links d)" "link_key l = (kind a, i, k, j)" "pk a = Some i"
    and "get_object_for_this_type d k j = Some c"
  shows "c \<in> set (get_linked_content d a)"
proof -
  from assms(2) have f: "from_content_type l = kind a" "from_object_id l = i"
    "to_content_type l = k" "to_object_id l = j"
    by (simp_all add: link_key_def)
  let ?f = "\<lambda>l. get_object_for_this_type d (to_content_type l) (to_object_id l)"
  let ?ls = "filter (\<lambda>l. from_content_type l = kind a \<and> Some (from_object_id l) = pk a)
               (content_links d)"
  have "l \<in> set ?ls" using assms(1,3) f by simp
  moreover have "?f l = Some c" using assms(4) f by simp
  ultimately have "c \<in> set (List.map_filter ?f ?ls)"
    by (force simp: map_filter_def)
  then show ?thesis by (simp add: get_linked_content_def)
qed

lemma get_object_contents:
  "contents d' = contents d \<Longrightarrow> get_object_for_this_type d' k i = get_object_for_this_type d k i"
  by (simp add: get_object_for_this_type_def)

lemma link_to_symmetric:
  assumes "links_wf d" "links_symmetric d"
  shows "links_symmetric (snd (link_to d a b))"
proof -
  from link_to_db_cases[OF assms(1), of a b]
  show ?thesis
  proof
    assume "snd (link_to d a b) = d"
    with assms(2) show ?thesis by simp
  next
    assume "\<exists>i j. links_wf (snd (link_to d a b)) \<and>
            link_keys (snd (link_to d a b)) =
              insert (kind a, i, kind b, j) (insert (kind b, j, kind a, i) (link_keys d))"
    then obtain i j where
      "link_keys (snd (link_to d a b)) =
         insert (kind a, i, kind b, j) (insert (kind b, j, kind a, i) (link_keys d))"
      by auto
    with assms(2) show ?thesis by (auto simp: links_symmetric_iff)
  qed
qed

lemma unlink_symmetric:
  assumes "links_wf d" "links_symmetric d"
  shows "links_symmetric (snd (unlink_from d a b))"
proof (cases "pk a = None \<or> pk b = None")
  case True
  with assms(2) show ?thesis by (simp add: unlink_None)
next
  case False
  then obtain i j where p: "pk a = Some i" "pk b = Some j" by auto
  from unlink_spec[OF assms(1) p] obtain b' d' where
    u: "unlink_from d a b = (b', d')" and
    k: "link_keys d' = (if (kind a, i, kind b, j) \<in> link_keys d
                          then link_keys d - {(kind a, i, kind b, j), (kind b, j, kind a, i)}
                          else link_keys d)"
    by auto
  from assms(2) k have "links_symmetric d'"
    by (auto simp: links_symmetric_iff split: if_splits)
  with u show ?thesis by simp
qed

lemmas fixture_defs = empty_db_def saved_def page1_def page2_def character1_def
  other_page_def link_row_def db_content_def db_linked_def db_one_way_def

lemmas link_defs = link_to_def unlink_from_def ContentLink_get_or_create_def
  ContentLink_save_def ContentLink_full_clean_def ContentLink_delete_def get_row_def
  link_matches_def

text \<open>
  C3 (as the code behaves). With only the row page1 to page2 stored, \<open>unlink_from\<close>
  called on page1 deletes that row and returns \<open>False\<close>; called on page2 it finds no
  forward row, returns \<open>False\<close> and leaves the row between the two pages in place.
\<close>

theorem unlink_from_one_way:
  "unlink_from db_one_way page1 page2 = (Inr False, db_one_way\<lparr>content_links := []\<rparr>) \<and>
   unlink_from db_one_way page2 page1 = (Inr False, db_one_way)"
  by (simp add: fixture_defs link_defs)

text \<open>
  C4. \<open>link_to\<close> raises the world-mismatch error whenever the two worlds differ,
  whichever instance is the receiver, and the self-link error whenever both instances
  are the same saved object (same kind and primary key, hence same world); in both
  cases the database is left as it was.
\<close>

theorem link_to_rejects:
  "(world a \<noteq> world b \<longrightarrow>
      link_to d a b = (Inl (ValidationError [''Cannot link content from different worlds'']), d) \<and>
      link_to d b a = (Inl (ValidationError [''Cannot link content from different worlds'']), d)) \<and>
   (links_wf d \<and> world b = world a \<and> kind b = kind a \<and> pk a = Some i \<and> pk b = Some i \<longrightarrow>
      link_to d a b = (Inl (ValidationError [''Content cannot link to itself'']), d))"
proof (intro conjI impI)
  assume "world a \<noteq> world b"
  then show "link_to d a b =
      (Inl (ValidationError [''Cannot link content from different worlds'']), d)"
    by (simp add: link_to_world)
next
  assume "world a \<noteq> world b"
  then show "link_to d b a =
      (Inl (ValidationError [''Cannot link content from different worlds'']), d)"
    by (simp add: link_to_world)
next
  assume "links_wf d \<and> world b = world a \<and> kind b = kind a \<and> pk a = Some i \<and> pk b = Some i"
  then show "link_to d a b = (Inl (ValidationError [''Content cannot link to itself'']), d)"
    by (simp add: link_to_self)
qed

theorem link_to_rejects_witness:
  "links_wf db_linked \<and> world page1 \<noteq> world other_page \<and>
   link_to db_linked page1 other_page =
     (Inl (ValidationError [''Cannot link content from different worlds'']), db_linked) \<and>
   link_to db_linked other_page page1 =
     (Inl (ValidationError [''Cannot link content from different worlds'']), db_linked) \<and>
   link_to db_linked page1 page1 =
     (Inl (ValidationError [''Content cannot link to itself'']), db_linked)"
proof -
  have wf: "links_wf db_linked"
    by (simp add: links_wf_def link_key_def fixture_defs)
  have w: "world page1 \<noteq> world other_page" by (simp add: fixture_defs)
  have s: "links_wf db_linked \<and> world page1 = world page1 \<and> kind page1 = kind page1 \<and>
           pk page1 = Some 1 \<and> pk page1 = Some 1"
    using wf by (simp add: page1_def saved_def)
  from link_to_rejects[of page1 other_page db_linked 1] w
  have 1: "link_to db_linked page1 other_page =
     (Inl (ValidationError [''Cannot link content from different worlds'']), db_linked)"
    and 2: "link_to db_linked other_page page1 =
     (Inl (ValidationError [''Cannot link content from different worlds'']), db_linked)"
    by blast+
  from link_to_rejects[of page1 page1 db_linked 1] s
  have 3: "link_to db_linked page1 page1 =
     (Inl (ValidationError [''Content cannot link to itself'']), db_linked)"
    by blast
  from wf w 1 2 3 show ?thesis by blast
qed

text \<open>
  C2. For two distinct saved entities of one world, \<open>link_to\<close> succeeds and leaves both
  directed rows in the table, so that each entity is among the linked content of the
  other; linking the pair again returns the same row and changes nothing; and on a
  symmetric link table both \<open>link_to\<close> and \<open>unlink_from\<close>, with any two arguments, leave
  a symmetric table.
\<close>

theorem link_graph_symmetric:
  assumes "links_wf d" "pk e1 = Some i1" "pk e2 = Some i2"
    and "persisted d e1" "persisted d e2"
    and "world e2 = world e1" "(kind e1, i1) \<noteq> (kind e2, i2)"
  shows "(\<exists>l. fst (link_to d e1 e2) = Inr l) \<and>
         has_link (snd (link_to d e1 e2)) (kind e1, i1) (kind e2, i2) \<and>
         has_link (snd (link_to d e1 e2)) (kind e2, i2) (kind e1, i1) \<and>
         e2 \<in> set (get_linked_content (snd (link_to d e1 e2)) e1) \<and>
         e1 \<in> set (get_linked_content (snd (link_to d e1 e2)) e2) \<and>
         link_to (snd (link_to d e1 e2)) e1 e2 = link_to d e1 e2 \<and>
         (\<forall>x y. links_symmetric d \<longrightarrow>
            links_symmetric (snd (link_to d x y)) \<and>
            links_symmetric (snd (unlink_from d x y)))"
proof -
  from link_to_ok[OF assms(1,6,2,3,7)] obtain l d' where
    r: "link_to d e1 e2 = (Inr l, d')" and
    lk: "link_key l = (kind e1, i1, kind e2, i2)" and
    wf': "links_wf d'" and
    keys: "link_keys d' = insert (kind e1, i1, kind e2, i2)
                            (insert (kind e2, i2, kind e1, i1) (link_keys d))" and
    cont: "contents d' = contents d"
    by auto
  have f: "(kind e1, i1, kind e2, i2) \<in> link_keys d'"
    and b: "(kind e2, i2, kind e1, i1) \<in> link_keys d'"
    by (simp_all add: keys)
  from f obtain lf where lf: "lf \<in> set (content_links d')"
    "link_key lf = (kind e1, i1, kind e2, i2)"
    by (auto simp: link_keys_def)
  from b obtain lb where lb: "lb \<in> set (content_links d')"
    "link_key lb = (kind e2, i2, kind e1, i1)"
    by (auto simp: link_keys_def)
  from assms(4,2) have g1: "get_object_for_this_type d' (kind e1) i1 = Some e1"
    by (simp add: persisted_def get_object_contents[OF cont])
  from assms(5,3) have g2: "get_object_for_this_type d' (kind e2) i2 = Some e2"
    by (simp add: persisted_def get_object_contents[OF cont])
  have t1: "e2 \<in> set (get_linked_content d' e1)"
    by (rule linked_contentI[OF lf assms(2) g2])
  have t2: "e1 \<in> set (get_linked_content d' e2)"
    by (rule linked_contentI[OF lb assms(3) g1])
  from link_to_ok[OF wf' assms(6,2,3,7)] obtain l2 d2 where
    r2: "link_to d' e1 e2 = (Inr l2, d2)" and
    lk2: "link_key l2 = (kind e1, i1, kind e2, i2)" and
    same: "(kind e1, i1, kind e2, i2) \<in> link_keys d' \<and>
           (kind e2, i2, kind e1, i1) \<in> link_keys d' \<longrightarrow> d2 = d'"
    by auto
  from same f b have d2: "d2 = d'" by simp
  from link_to_mem[OF r] have m1: "l \<in> set (content_links d')" .
  from link_to_mem[OF r2] d2 have m2: "l2 \<in> set (content_links d')" by simp
  from wf' have inj: "inj_on link_key (set (content_links d'))"
    by (simp add: links_wf_def distinct_map)
  from lk lk2 have "link_key l2 = link_key l" by simp
  with inj have "l2 = l" using m2 m1 by (rule inj_onD)
  with r2 d2 r have again: "link_to d' e1 e2 = link_to d e1 e2" by simp
  have pres: "\<forall>x y. links_symmetric d \<longrightarrow>
            links_symmetric (snd (link_to d x y)) \<and>
            links_symmetric (snd (unlink_from d x y))"
    using link_to_symmetric[OF assms(1)] unlink_symmetric[OF assms(1)] by simp
  from r f b t1 t2 again pres show ?thesis
    by (simp add: has_link_def)
qed

theorem link_graph_symmetric_witness:
  "links_wf db_linked \<and> links_symmetric db_linked \<and>
   persisted db_linked page1 \<and> persisted db_linked character1 \<and>
   world character1 = world page1 \<and>
   character1 \<in> set (get_linked_content (snd (link_to db_linked page1 character1)) page1) \<and>
   page1 \<in> set (get_linked_content (snd (link_to db_linked page1 character1)) character1) \<and>
   links_symmetric (snd (link_to db_linked page1 character1)) \<and>
   links_symmetric (snd (unlink_from db_linked page1 page2))"
proof -
  have wf: "links_wf db_linked"
    by (simp add: links_wf_def link_key_def fixture_defs)
  have sym: "links_symmetric db_linked"
    by (simp add: links_symmetric_def has_link_def link_keys_def link_key_def fixture_defs)
  have p1: "pk page1 = Some 1" and p2: "pk character1 = Some 1"
    by (simp_all add: fixture_defs)
  have s1: "persisted db_linked page1"
    by (simp add: persisted_def get_object_for_this_type_def fixture_defs)
  have s2: "persisted db_linked character1"
    by (simp add: persisted_def get_object_for_this_type_def fixture_defs)
  have w: "world character1 = world page1" by (simp add: fixture_defs)
  have ne: "(kind page1, 1::nat) \<noteq> (kind character1, 1)" by (simp add: fixture_defs)
  note t = link_graph_symmetric[OF wf p1 p2 s1 s2 w ne]
  from t have a: "character1 \<in> set (get_linked_content (snd (link_to db_linked page1 character1)) page1)"
    by (elim conjE)
  from t have b: "page1 \<in> set (get_linked_content (snd (link_to db_linked page1 character1)) character1)"
    by (elim conjE)
  from t have c: "\<forall>x y. links_symmetric db_linked \<longrightarrow>
            links_symmetric (snd (link_to db_linked x y)) \<and>
            links_symmetric (snd (unlink_from db_linked x y))"
    by (elim conjE)
  from c sym have d: "links_symmetric (snd (link_to db_linked page1 character1))"
    and e: "links_symmetric (snd (unlink_from db_linked page1 page2))"
    by simp_all
  from wf sym s1 s2 w a b d e show ?thesis by simp
qed

section \<open>Properties of the string functions\<close>

lemma of_char_lower:
  assumes "py_isupper c"
  shows "(of_char (py_lower_char c) :: nat) = of_char c + 32"
proof -
  from assms have "(of_char c :: nat) + 32 < 256" by (auto simp: py_isupper_def)
  then have "((of_char c :: nat) + 32) mod 256 = of_char c + 32" by simp
  with assms show ?thesis by (simp add: py_lower_char_def)
qed

lemma py_isspace_lower_char: "py_isspace (py_lower_char c) = py_isspace c"
proof (cases "py_isupper c")
  case True
  from of_char_lower[OF True] True show ?thesis
    by (auto simp: py_isspace_def py_isupper_def)
next
  case False
  then show ?thesis by (simp add: py_lower_char_def)
qed

lemma py_isupper_lower_char: "\<not> py_isupper (py_lower_char c)"
proof (cases "py_isupper c")
  case True
  from of_char_lower[OF True] True show ?thesis
    by (auto simp: py_isupper_def)
next
  case False
  then show ?thesis by (simp add: py_lower_char_def)
qed

lemma py_lower_char_idem: "py_lower_char (py_lower_char c) = py_lower_char c"
  using py_isupper_lower_char[of c] by (simp add: py_lower_char_def[of "py_lower_char c"])

lemma py_lower_idem: "py_lower (py_lower s) = py_lower s"
  by (simp add: py_lower_def py_lower_char_idem)

lemma length_py_lower: "length (py_lower s) = length s"
  by (simp add: py_lower_def)

lemma py_lower_Nil_iff: "py_lower s = [] \<longleftrightarrow> s = []"
  by (simp add: py_lower_def)

lemma py_isspace_comp: "py_isspace \<circ> py_lower_char = py_isspace"
  by (rule ext) (simp add: py_isspace_lower_char)

lemma py_strip_lower: "py_strip (py_lower s) = py_lower (py_strip s)"
  by (simp add: py_strip_def py_lower_def dropWhile_map rev_map py_isspace_comp)

lemma dropWhile_rev_stripped:
  assumes "t = [] \<or> \<not> P (hd t)"
  shows "dropWhile P (rev (dropWhile P (rev t))) = rev (dropWhile P (rev t))"
proof (cases "dropWhile P (rev t) = []")
  case True
  show ?thesis unfolding True by simp
next
  case False
  define u where "u = dropWhile P (rev t)"
  from False have une: "u \<noteq> []" by (simp add: u_def)
  have "rev t = takeWhile P (rev t) @ u" by (simp add: u_def)
  then have "rev (rev t) = rev (takeWhile P (rev t) @ u)" by (rule arg_cong)
  then have t: "t = rev u @ rev (takeWhile P (rev t))" by simp
  from une have ne: "rev u \<noteq> []" by simp
  with t have "hd t = hd (rev u)" by (metis hd_append2)
  moreover from t ne have "t \<noteq> []" by (metis append_is_Nil_conv)
  with assms have "\<not> P (hd t)" by simp
  ultimately have "\<not> P (hd (rev u))" by simp
  then have "dropWhile P (rev u) = rev u" by (simp add: dropWhile_eq_self_iff)
  then show ?thesis by (simp add: u_def)
qed

lemma dropWhile_rev_dropWhile:
  "dropWhile P (rev (dropWhile P (rev (dropWhile P s)))) = rev (dropWhile P (rev (dropWhile P s)))"
proof (rule dropWhile_rev_stripped)
  show "dropWhile P s = [] \<or> \<not> P (hd (dropWhile P s))"
    using hd_dropWhile[of P s] by blast
qed

lemma py_strip_idem: "py_strip (py_strip s) = py_strip s"
  by (simp add: py_strip_def dropWhile_rev_dropWhile)

text \<open>Normalising a tag name twice is normalising it once.\<close>

lemma normalize_idem:
  "py_lower (py_strip (py_lower (py_strip s))) = py_lower (py_strip s)"
  by (simp add: py_strip_lower py_strip_idem py_lower_idem)

lemma strip_normalized: "py_strip (py_lower (py_strip s)) = py_lower (py_strip s)"
  by (simp add: py_strip_lower py_strip_idem)

section \<open>Properties of the tagging subsystem\<close>

lemma get_row_key_present:
  assumes "distinct (map f rows)" "x \<in> set rows" "f x = k"
  shows "get_row (\<lambda>y. f y = k) rows = Inr x"
  using get_row_keyed[OF assms(1,2)] assms(3) by simp

lemma get_row_key_absent:
  assumes "k \<notin> f ` set rows"
  shows "get_row (\<lambda>y. f y = k) rows = Inl DoesNotExist"
proof (rule get_row_absent, rule ballI, rule notI)
  fix r assume "r \<in> set rows" and "f r = k"
  then have "k \<in> f ` set rows" by (metis imageI)
  with assms show False by (rule notE)
qed

lemma tag_pred_key:
  "(\<lambda>t. name t = n \<and> tag_world t = w) = (\<lambda>t. tag_key t = (n, w))"
  by (rule ext) (simp add: tag_key_def)

lemma content_tag_pred_key:
  "content_tag_matches k (Some i) t = (\<lambda>c. content_tag_key c = (k, i, t))"
  by (rule ext) (auto simp: content_tag_matches_def content_tag_key_def)

lemma Tag_goc_present:
  assumes "distinct (map tag_key (tags d))" "t \<in> set (tags d)" "tag_key t = (n, w)"
  shows "Tag_get_or_create d n w = (Inr t, d)"
  using get_row_key_present[OF assms]
  by (simp add: Tag_get_or_create_def tag_pred_key)

lemma Tag_full_clean_ok:
  assumes "n = py_lower (py_strip n0)" "n \<noteq> []" "length n \<le> 100"
    and "(n, w) \<notin> tag_key ` set (tags d)"
  shows "Tag_full_clean d n w = ([], n)"
proof -
  from assms(1) have s: "py_strip n = n" by (simp add: strip_normalized)
  from assms(1) have l: "py_lower n = n" by (simp add: py_lower_idem)
  from assms(4) have "\<not> list_ex (\<lambda>t. name t = n \<and> tag_world t = w) (tags d)"
    by (force simp: list_ex_iff tag_key_def)
  with assms(2,3) s l show ?thesis
    by (simp add: Tag_full_clean_def Let_def)
qed

lemma Tag_goc_spec:
  assumes "distinct (map tag_key (tags d))"
    and "n = py_lower (py_strip n0)" "n \<noteq> []" "length n \<le> 100"
  shows "\<exists>t d1. Tag_get_or_create d n w = (Inr t, d1) \<and> tag_key t = (n, w) \<and>
           t \<in> set (tags d1) \<and> distinct (map tag_key (tags d1)) \<and>
           content_tags d1 = content_tags d"
proof (cases "(n, w) \<in> tag_key ` set (tags d)")
  case True
  then obtain t where t: "t \<in> set (tags d)" "tag_key t = (n, w)" by auto
  from Tag_goc_present[OF assms(1) t] t assms(1) show ?thesis by auto
next
  case False
  let ?t = "\<lparr>tag_id = Suc (tag_seq d), name = n, tag_world = w\<rparr>"
  let ?d1 = "d\<lparr>tags := tags d @ [?t], tag_seq := Suc (tag_seq d)\<rparr>"
  from False have "get_row (\<lambda>t. tag_key t = (n, w)) (tags d) = Inl DoesNotExist"
    by (rule get_row_key_absent)
  then have "Tag_get_or_create d n w = Tag_save d n w"
    by (simp add: Tag_get_or_create_def tag_pred_key)
  also have "\<dots> = (Inr ?t, ?d1)"
    by (simp add: Tag_save_def Tag_full_clean_ok[OF assms(2,3,4) False] Let_def)
  finally have r: "Tag_get_or_create d n w = (Inr ?t, ?d1)" .
  have k: "tag_key ?t = (n, w)" by (simp add: tag_key_def)
  have "distinct (map tag_key (tags ?d1))" using assms(1) False by (simp add: k)
  with r k show ?thesis by auto
qed

lemma ContentTag_goc_present:
  assumes "distinct (map content_tag_key (content_tags d))" "c \<in> set (content_tags d)"
    and "content_tag_key c = (k, i, t)"
  shows "ContentTag_get_or_create d k (Some i) t = (Inr c, d)"
  using get_row_key_present[OF assms]
  by (simp add: ContentTag_get_or_create_def content_tag_pred_key)

lemma ContentTag_goc_spec:
  assumes "distinct (map content_tag_key (content_tags d))"
  shows "\<exists>c d2. ContentTag_get_or_create d k (Some i) t = (Inr c, d2) \<and>
           content_tag_key c = (k, i, t) \<and> c \<in> set (content_tags d2) \<and>
           distinct (map content_tag_key (content_tags d2)) \<and> tags d2 = tags d"
proof (cases "(k, i, t) \<in> content_tag_key ` set (content_tags d)")
  case True
  then obtain c where c: "c \<in> set (content_tags d)" "content_tag_key c = (k, i, t)" by auto
  from ContentTag_goc_present[OF assms c] c assms show ?thesis by auto
next
  case False
  let ?c = "\<lparr>content_tag_id = Suc (content_tag_seq d), content_type = k,
            object_id = i, tag_ref = t\<rparr>"
  let ?d2 = "d\<lparr>content_tags := content_tags d @ [?c],
               content_tag_seq := Suc (content_tag_seq d)\<rparr>"
  from False have "get_row (\<lambda>c. content_tag_key c = (k, i, t)) (content_tags d)
                     = Inl DoesNotExist"
    by (rule get_row_key_absent)
  then have r: "ContentTag_get_or_create d k (Some i) t = (Inr ?c, ?d2)"
    by (simp add: ContentTag_get_or_create_def content_tag_pred_key Let_def)
  have key: "content_tag_key ?c = (k, i, t)" by (simp add: content_tag_key_def)
  have "distinct (map content_tag_key (content_tags ?d2))"
    using assms False by (simp add: key)
  with r key show ?thesis by auto
qed

lemmas tag_fixture_defs = long_name_def tag_row_def content_tag_row_def db_tagged_def

lemmas tag_defs = add_tag_def Tag_get_or_create_def Tag_save_def Tag_full_clean_def
  ContentTag_get_or_create_def content_tag_matches_def get_row_def

lemma long_name_normal: "py_lower (py_strip long_name) = long_name"
  by code_simp

lemma length_long_name: "length long_name = 101"
  by (simp add: long_name_def)

lemma Fantasy_normal: "py_lower (py_strip ''Fantasy'') = ''fantasy''"
  by code_simp

lemma fantasy_normal: "py_lower (py_strip ''fantasy'') = ''fantasy''"
  by code_simp

lemma magic_normal: "py_lower (py_strip ''magic'') = ''magic''"
  by code_simp

lemma long_name_message:
  "max_length_message 100 101 =
     ''Ensure this value has at most 100 characters (it has 101).''"
  by code_simp

lemma Tag_goc_too_long:
  assumes "n = py_lower (py_strip n0)" "n \<noteq> []" "100 < length n"
    and "(n, w) \<notin> tag_key ` set (tags d)"
  shows "Tag_get_or_create d n w =
           (Inl (ValidationError [max_length_message 100 (length n)]), d)"
proof -
  from assms(1) have s: "py_strip n = n" by (simp add: strip_normalized)
  from assms(4) have "get_row (\<lambda>t. tag_key t = (n, w)) (tags d) = Inl DoesNotExist"
    by (rule get_row_key_absent)
  then have "Tag_get_or_create d n w = Tag_save d n w"
    by (simp add: Tag_get_or_create_def tag_pred_key)
  also have "\<dots> = (Inl (ValidationError [max_length_message 100 (length n)]), d)"
    using assms(2,3) s by (simp add: Tag_save_def Tag_full_clean_def Let_def)
  finally show ?thesis .
qed

lemma Tag_goc_ok:
  assumes "distinct (map tag_key (tags d))"
    and "n = py_lower (py_strip n0)" "n \<noteq> []"
    and "length n \<le> 100 \<or> (n, w) \<in> tag_key ` set (tags d)"
  shows "\<exists>t d1. Tag_get_or_create d n w = (Inr t, d1) \<and> tag_key t = (n, w) \<and>
           t \<in> set (tags d1) \<and> distinct (map tag_key (tags d1)) \<and>
           content_tags d1 = content_tags d"
proof (cases "(n, w) \<in> tag_key ` set (tags d)")
  case True
  then obtain t where t: "t \<in> set (tags d)" "tag_key t = (n, w)" by auto
  from Tag_goc_present[OF assms(1) t] t assms(1) show ?thesis by auto
next
  case False
  with assms(4) have "length n \<le> 100" by simp
  from Tag_goc_spec[OF assms(1,2,3) this] show ?thesis .
qed

text \<open>
  C5, as stated, fails. A name of 101 characters trims to a non-empty string, yet
  \<open>add_tag\<close> raises the validation error of \<open>Tag.full_clean\<close> (the name column has
  \<open>max_length = 100\<close>) and writes nothing. And on an instance that has not been saved
  (\<open>pk\<close> is \<open>None\<close>) \<open>add_tag\<close> creates the tag, then the insert of the association
  raises \<open>IntegrityError\<close>.
\<close>

theorem add_tag_long_name:
  "py_strip long_name \<noteq> [] \<and>
   add_tag db_content page1 long_name =
     (Inl (ValidationError [''Ensure this value has at most 100 characters (it has 101).'']),
      db_content) \<and>
   py_strip ''fantasy'' \<noteq> [] \<and>
   add_tag db_content (page1\<lparr>pk := None\<rparr>) ''fantasy'' =
     (Inl IntegrityError, db_content\<lparr>tags := [tag_row 1 ''fantasy'' 1], tag_seq := 1\<rparr>)"
proof -
  have ne: "long_name \<noteq> []" by (simp add: long_name_def)
  have s: "py_strip long_name = long_name"
    using strip_normalized[of long_name] by (simp add: long_name_normal)
  have l: "py_lower long_name = long_name"
    using long_name_normal by (simp add: s)
  have t: "tags db_content = []" "tag_seq db_content = 0" "content_tags db_content = []"
    by (simp_all add: db_content_def empty_db_def)
  have a: "add_tag db_content page1 long_name =
     (Inl (ValidationError [''Ensure this value has at most 100 characters (it has 101).'']),
      db_content)"
    using ne by (simp add: s l tag_defs length_long_name t Let_def long_name_message)
  have f: "py_strip ''fantasy'' = ''fantasy''" "py_lower ''fantasy'' = ''fantasy''"
    by code_simp+
  have w: "world (page1\<lparr>pk := None\<rparr>) = 1" "pk (page1\<lparr>pk := None\<rparr>) = None"
    by (simp_all add: page1_def saved_def)
  have b: "add_tag db_content (page1\<lparr>pk := None\<rparr>) ''fantasy'' =
     (Inl IntegrityError, db_content\<lparr>tags := [tag_row 1 ''fantasy'' 1], tag_seq := 1\<rparr>)"
    by (simp add: f w tag_defs t Let_def tag_row_def)
  from ne s a f b show ?thesis by simp
qed

text \<open>
  C5, amended. Take a saved entity and a name whose trimmed, lower-cased form is not
  empty. If that form has at most 100 characters, or is already the name of a tag of
  the entity's world, \<open>add_tag\<close> returns an association of the entity with the tag of
  that normalised name in the entity's world, and a further call with any name of the
  same normalised form returns the same association and leaves the database as it
  is. If that form has more than 100 characters and is not yet the name of a tag of
  the entity's world, \<open>add_tag\<close> raises the validation error of the name column and
  leaves the database as it is.
\<close>

theorem add_tag_idempotent:
  assumes "tags_wf d" "pk e = Some i" "py_lower (py_strip n) \<noteq> []"
  shows "(length (py_lower (py_strip n)) \<le> 100 \<or>
          (py_lower (py_strip n), world e) \<in> tag_key ` set (tags d) \<longrightarrow>
          (\<exists>c t. fst (add_tag d e n) = Inr c \<and>
             c \<in> set (content_tags (snd (add_tag d e n))) \<and>
             content_type c = kind e \<and> object_id c = i \<and> tag_ref c = tag_id t \<and>
             t \<in> set (tags (snd (add_tag d e n))) \<and>
             name t = py_lower (py_strip n) \<and> tag_world t = world e \<and>
             (\<forall>n2. py_lower (py_strip n2) = py_lower (py_strip n) \<longrightarrow>
                add_tag (snd (add_tag d e n)) e n2 = (Inr c, snd (add_tag d e n))))) \<and>
         (100 < length (py_lower (py_strip n)) \<and>
          (py_lower (py_strip n), world e) \<notin> tag_key ` set (tags d) \<longrightarrow>
          add_tag d e n =
            (Inl (ValidationError
                    [max_length_message 100 (length (py_lower (py_strip n)))]), d))"
proof (rule conjI; rule impI)
  let ?n = "py_lower (py_strip n)"
  assume ok: "length ?n \<le> 100 \<or> (?n, world e) \<in> tag_key ` set (tags d)"
  from assms(1) have dt: "distinct (map tag_key (tags d))"
    and dc: "distinct (map content_tag_key (content_tags d))"
    by (simp_all add: tags_wf_def)
  from Tag_goc_ok[OF dt refl assms(3) ok] obtain t d1 where
    g1: "Tag_get_or_create d ?n (world e) = (Inr t, d1)" and
    tk: "tag_key t = (?n, world e)" and
    tin: "t \<in> set (tags d1)" and
    dt1: "distinct (map tag_key (tags d1))" and
    ct1: "content_tags d1 = content_tags d"
    by auto
  from dc ct1 have dc1: "distinct (map content_tag_key (content_tags d1))" by simp
  from ContentTag_goc_spec[OF dc1, of "kind e" i "tag_id t"] obtain c d2 where
    g2: "ContentTag_get_or_create d1 (kind e) (Some i) (tag_id t) = (Inr c, d2)" and
    ck: "content_tag_key c = (kind e, i, tag_id t)" and
    cin: "c \<in> set (content_tags d2)" and
    dc2: "distinct (map content_tag_key (content_tags d2))" and
    t2: "tags d2 = tags d1"
    by auto
  have r: "add_tag d e n = (Inr c, d2)"
    using assms(2,3) g1 g2 by (simp add: add_tag_def Let_def)
  from dt1 t2 have dt2: "distinct (map tag_key (tags d2))" by simp
  from tin t2 have tin2: "t \<in> set (tags d2)" by simp
  have again: "add_tag d2 e n2 = (Inr c, d2)" if "py_lower (py_strip n2) = ?n" for n2
  proof -
    have a: "Tag_get_or_create d2 ?n (world e) = (Inr t, d2)"
      by (rule Tag_goc_present[OF dt2 tin2 tk])
    have b: "ContentTag_get_or_create d2 (kind e) (Some i) (tag_id t) = (Inr c, d2)"
      by (rule ContentTag_goc_present[OF dc2 cin ck])
    show ?thesis using that assms(2,3) a b by (simp add: add_tag_def Let_def)
  qed
  from ck have cf: "content_type c = kind e" "object_id c = i" "tag_ref c = tag_id t"
    by (simp_all add: content_tag_key_def)
  from tk have tf: "name t = ?n" "tag_world t = world e"
    by (simp_all add: tag_key_def)
  show "\<exists>c t. fst (add_tag d e n) = Inr c \<and>
             c \<in> set (content_tags (snd (add_tag d e n))) \<and>
             content_type c = kind e \<and> object_id c = i \<and> tag_ref c = tag_id t \<and>
             t \<in> set (tags (snd (add_tag d e n))) \<and>
             name t = ?n \<and> tag_world t = world e \<and>
             (\<forall>n2. py_lower (py_strip n2) = ?n \<longrightarrow>
                add_tag (snd (add_tag d e n)) e n2 = (Inr c, snd (add_tag d e n)))"
    using r cin cf tin2 tf again by (simp, blast)
next
  let ?n = "py_lower (py_strip n)"
  assume long: "100 < length ?n \<and> (?n, world e) \<notin> tag_key ` set (tags d)"
  then have l: "100 < length ?n" and a: "(?n, world e) \<notin> tag_key ` set (tags d)"
    by simp_all
  from Tag_goc_too_long[OF refl assms(3) l a]
  show "add_tag d e n = (Inl (ValidationError [max_length_message 100 (length ?n)]), d)"
    using assms(3) by (simp add: add_tag_def Let_def)
qed

theorem add_tag_idempotent_witness:
  "tags_wf db_content \<and> pk page1 = Some 1 \<and>
   py_lower (py_strip ''Fantasy'') = ''fantasy'' \<and>
   py_lower (py_strip ''fantasy'') = py_lower (py_strip ''Fantasy'') \<and>
   (''fantasy'', world page1) \<notin> tag_key ` set (tags db_content) \<and>
   snd (add_tag db_content page1 ''Fantasy'') =
     db_content\<lparr>tags := [tag_row 1 ''fantasy'' 1], tag_seq := 1,
       content_tags := [content_tag_row 1 Page 1 1], content_tag_seq := 1\<rparr> \<and>
   (\<exists>c. fst (add_tag db_content page1 ''Fantasy'') = Inr c \<and>
        add_tag (snd (add_tag db_content page1 ''Fantasy'')) page1 ''fantasy'' =
          (Inr c, snd (add_tag db_content page1 ''Fantasy''))) \<and>
   tags_wf db_tagged \<and> pk page2 = Some 2 \<and>
   py_lower (py_strip long_name) \<noteq> [] \<and>
   100 < length (py_lower (py_strip long_name)) \<and>
   (py_lower (py_strip long_name), world page2) \<notin> tag_key ` set (tags db_tagged) \<and>
   add_tag db_tagged page2 long_name =
     (Inl (ValidationError [''Ensure this value has at most 100 characters (it has 101).'']),
      db_tagged)"
proof -
  have wf0: "tags_wf db_content"
    by (simp add: tags_wf_def db_content_def empty_db_def)
  have wf: "tags_wf db_tagged"
    by (simp add: tags_wf_def tag_key_def content_tag_key_def tag_fixture_defs)
  have p1: "pk page1 = Some 1" and w1: "world page1 = 1" and k1: "kind page1 = Page"
    by (simp_all add: page1_def saved_def)
  have p: "pk page2 = Some 2" and w: "world page2 = 1"
    by (simp_all add: page2_def saved_def)
  have ne: "py_lower (py_strip ''Fantasy'') \<noteq> []" by (simp add: Fantasy_normal)
  have le: "length (py_lower (py_strip ''Fantasy'')) \<le> 100" by (simp add: Fantasy_normal)
  have eq: "py_lower (py_strip ''fantasy'') = py_lower (py_strip ''Fantasy'')"
    by (simp add: Fantasy_normal fantasy_normal)
  have t0: "tags db_content = []" "tag_seq db_content = 0" "content_tags db_content = []"
    "content_tag_seq db_content = 0"
    by (simp_all add: db_content_def empty_db_def)
  have t: "tags db_tagged = [tag_row 1 ''fantasy'' 1, tag_row 2 ''adventure'' 1]"
    by (simp add: db_tagged_def)
  have absent: "(''fantasy'', world page1) \<notin> tag_key ` set (tags db_content)"
    by (simp add: t0)
  have s: "py_strip ''fantasy'' = ''fantasy''" "py_lower ''fantasy'' = ''fantasy''"
    by code_simp+
  have created: "snd (add_tag db_content page1 ''Fantasy'') =
     db_content\<lparr>tags := [tag_row 1 ''fantasy'' 1], tag_seq := 1,
       content_tags := [content_tag_row 1 Page 1 1], content_tag_seq := 1\<rparr>"
    by (simp add: add_tag_def Fantasy_normal Tag_get_or_create_def Tag_save_def
        Tag_full_clean_def ContentTag_get_or_create_def content_tag_matches_def get_row_def
        s t0 p1 w1 k1 Let_def tag_row_def content_tag_row_def)
  note th = add_tag_idempotent[OF wf0 p1 ne]
  from th le obtain c where
    c: "fst (add_tag db_content page1 ''Fantasy'') = Inr c" and
    a: "\<forall>n2. py_lower (py_strip n2) = py_lower (py_strip ''Fantasy'') \<longrightarrow>
          add_tag (snd (add_tag db_content page1 ''Fantasy'')) page1 n2 =
            (Inr c, snd (add_tag db_content page1 ''Fantasy''))"
    by auto
  from a have "py_lower (py_strip ''fantasy'') = py_lower (py_strip ''Fantasy'') \<longrightarrow>
          add_tag (snd (add_tag db_content page1 ''Fantasy'')) page1 ''fantasy'' =
            (Inr c, snd (add_tag db_content page1 ''Fantasy''))" by (rule spec)
  then have again: "add_tag (snd (add_tag db_content page1 ''Fantasy'')) page1 ''fantasy'' =
          (Inr c, snd (add_tag db_content page1 ''Fantasy''))" using eq by (rule mp)
  have lne: "py_lower (py_strip long_name) \<noteq> []"
    unfolding long_name_normal by (simp add: long_name_def)
  have ll: "100 < length (py_lower (py_strip long_name))"
    by (simp add: long_name_normal length_long_name)
  have other: "long_name \<noteq> s" if "length s \<noteq> 101" for s
  proof
    assume "long_name = s"
    then have "length long_name = length s" by (rule arg_cong)
    with length_long_name that show False by simp
  qed
  have labsent: "(py_lower (py_strip long_name), world page2) \<notin> tag_key ` set (tags db_tagged)"
    unfolding long_name_normal using other by (simp add: t w tag_key_def tag_row_def)
  from add_tag_idempotent[OF wf p lne] ll labsent
  have "add_tag db_tagged page2 long_name =
     (Inl (ValidationError
             [max_length_message 100 (length (py_lower (py_strip long_name)))]), db_tagged)"
    by simp
  then have rejected: "add_tag db_tagged page2 long_name =
     (Inl (ValidationError [''Ensure this value has at most 100 characters (it has 101).'']),
      db_tagged)"
    by (simp add: long_name_normal length_long_name long_name_message)
  from c again have ex: "\<exists>c. fst (add_tag db_content page1 ''Fantasy'') = Inr c \<and>
        add_tag (snd (add_tag db_content page1 ''Fantasy'')) page1 ''fantasy'' =
          (Inr c, snd (add_tag db_content page1 ''Fantasy''))"
    by auto
  have m: "py_lower (py_strip ''Fantasy'') = ''fantasy''" by (rule Fantasy_normal)
  show ?thesis
    apply (intro conjI)
    apply (rule wf0, rule p1, rule m, rule eq, rule absent, rule created, rule ex,
           rule wf, rule p, rule lne, rule ll, rule labsent, rule rejected)
    done
qed

lemmas query_defs = get_content_by_tags_def filter_id_in_world_def objects_def
  newest_first_def tag_content_ids_def

text \<open>
  C6 (as the code behaves). In world 1, page1 carries the tags fantasy and adventure,
  page2 carries fantasy, and no tag is named magic. Asked for the pages that have all
  of fantasy and magic, \<open>get_content_by_tags\<close> returns both pages: the loop runs over
  the tags that exist, so the missing name is not part of the intersection. Asked for
  magic alone it returns nothing.
\<close>

theorem get_content_by_tags_missing_tag:
  "get_content_by_tags db_tagged Page 1 (Inr [''fantasy'', ''magic'']) True = [page2, page1] \<and>
   get_content_by_tags db_tagged Page 1 (Inr [''magic'']) True = []"
  by (simp add: query_defs fantasy_normal magic_normal tag_fixture_defs fixture_defs)

section \<open>Properties of the entity store\<close>

lemmas store_defs = ContentBase_save_def ContentBase_full_clean_def ContentBase_clean_def
  ImmutableModelMixin_save_def Model_save_def soft_delete_def restore_def
  ContentBase_delete_def pk_truthy_def row_is_def objects_def

lemma row_is_find:
  assumes "pk self = Some i"
  shows "List.find (row_is self) (contents d) = get_object_for_this_type d (kind self) i"
proof -
  have "row_is self = (\<lambda>c. kind c = kind self \<and> pk c = Some i)"
    by (rule ext) (simp add: row_is_def assms)
  then show ?thesis by (simp add: get_object_for_this_type_def)
qed

lemma persisted_list_ex:
  assumes "persisted d e"
  shows "list_ex (row_is e) (contents d)"
proof -
  from assms obtain i where i: "pk e = Some i"
    and g: "get_object_for_this_type d (kind e) i = Some e"
    by (auto simp: persisted_def split: option.splits)
  from g have "List.find (row_is e) (contents d) = Some e"
    by (simp add: row_is_find[OF i])
  then have "e \<in> set (contents d)" by (auto simp: find_Some_iff)
  then show ?thesis by (auto simp: list_ex_iff row_is_def)
qed

lemma force_update_row:
  assumes "list_ex (row_is e) (contents d)" "pk e = Some i"
  shows "ImmutableModelMixin_save d e True now =
           (Inr e, d\<lparr>contents := map (\<lambda>c. if row_is e c then e else c) (contents d)\<rparr>)"
  using assms by (simp add: ImmutableModelMixin_save_def Model_save_def)

lemma find_map_replace:
  assumes "list_ex P xs" "P x"
  shows "List.find P (map (\<lambda>c. if P c then x else c) xs) = Some x"
  using assms by (induction xs) auto

lemma list_ex_map_replace:
  assumes "list_ex P xs" "P x"
  shows "list_ex P (map (\<lambda>c. if P c then x else c) xs)"
  using assms by (induction xs) auto

lemma map_replace_twice:
  assumes "P x"
  shows "map (\<lambda>c. if P c then y else c) (map (\<lambda>c. if P c then x else c) xs) =
         map (\<lambda>c. if P c then y else c) xs"
  using assms by (induction xs) auto

text \<open>
  C7. For a saved entity, \<open>soft_delete\<close> followed by \<open>restore\<close> both succeed; the
  instance after \<open>soft_delete\<close> is the entity with the triad set, the instance after
  \<open>restore\<close> is the entity with the triad cleared, every other field as before; the
  stored row is that instance and every other row is untouched.
\<close>

theorem soft_delete_restore_roundtrip:
  assumes "persisted d e"
  shows "soft_delete d e actor t1 =
           (Inr (e\<lparr>is_deleted := True, deleted_at := Some t1, deleted_by := actor\<rparr>),
            d\<lparr>contents := map (\<lambda>c. if row_is e c
                 then e\<lparr>is_deleted := True, deleted_at := Some t1, deleted_by := actor\<rparr>
                 else c) (contents d)\<rparr>) \<and>
         restore (snd (soft_delete d e actor t1))
                 (e\<lparr>is_deleted := True, deleted_at := Some t1, deleted_by := actor\<rparr>) t2 =
           (Inr (e\<lparr>is_deleted := False, deleted_at := None, deleted_by := None\<rparr>),
            d\<lparr>contents := map (\<lambda>c. if row_is e c
                 then e\<lparr>is_deleted := False, deleted_at := None, deleted_by := None\<rparr>
                 else c) (contents d)\<rparr>) \<and>
         persisted (snd (restore (snd (soft_delete d e actor t1))
                 (e\<lparr>is_deleted := True, deleted_at := Some t1, deleted_by := actor\<rparr>) t2))
           (e\<lparr>is_deleted := False, deleted_at := None, deleted_by := None\<rparr>)"
proof -
  let ?e1 = "e\<lparr>is_deleted := True, deleted_at := Some t1, deleted_by := actor\<rparr>"
  let ?e2 = "e\<lparr>is_deleted := False, deleted_at := None, deleted_by := None\<rparr>"
  let ?d1 = "d\<lparr>contents := map (\<lambda>c. if row_is e c then ?e1 else c) (contents d)\<rparr>"
  let ?d2 = "d\<lparr>contents := map (\<lambda>c. if row_is e c then ?e2 else c) (contents d)\<rparr>"
  from assms obtain i where i: "pk e = Some i"
    by (auto simp: persisted_def split: option.splits)
  note ex = persisted_list_ex[OF assms]
  have r1: "row_is ?e1 = row_is e" and r2: "row_is ?e2 = row_is e"
    by (simp_all add: row_is_def fun_eq_iff)
  have p1: "row_is e ?e1" and p2: "row_is e ?e2" by (simp_all add: row_is_def)
  have ex1: "list_ex (row_is ?e1) (contents d)" using ex by (simp add: r1)
  have s1: "soft_delete d e actor t1 = (Inr ?e1, ?d1)"
    using force_update_row[OF ex1, of i t1] i by (simp add: soft_delete_def r1)
  have ex2: "list_ex (row_is ?e2) (contents ?d1)"
    using list_ex_map_replace[OF ex p1] by (simp add: r2)
  have "restore ?d1 ?e1 t2 =
          (Inr ?e2, ?d1\<lparr>contents := map (\<lambda>c. if row_is ?e2 c then ?e2 else c) (contents ?d1)\<rparr>)"
    using force_update_row[OF ex2, of i t2] i by (simp add: restore_def)
  then have s2: "restore ?d1 ?e1 t2 = (Inr ?e2, ?d2)"
    by (simp add: r2 map_replace_twice[of "row_is e" ?e1, OF p1] del: map_map)
  have "List.find (row_is ?e2) (contents ?d2) = Some ?e2"
    using find_map_replace[OF ex p2] by (simp add: r2)
  then have p: "persisted ?d2 ?e2"
    using i row_is_find[of ?e2 i ?d2] by (simp add: persisted_def)
  from s1 s2 p show ?thesis by simp
qed

theorem soft_delete_restore_roundtrip_witness:
  "persisted db_content page1 \<and>
   restore (snd (soft_delete db_content page1 (Some 2) 50))
           (page1\<lparr>is_deleted := True, deleted_at := Some 50, deleted_by := Some 2\<rparr>) 60 =
     (Inr page1, db_content)"
proof -
  have p: "persisted db_content page1"
    by (simp add: persisted_def get_object_for_this_type_def fixture_defs)
  have e: "page1\<lparr>is_deleted := False, deleted_at := None, deleted_by := None\<rparr> = page1"
    by (simp add: page1_def saved_def)
  have m: "map (\<lambda>c. if row_is page1 c then page1 else c) (contents db_content) =
             contents db_content"
    by (simp add: row_is_def fixture_defs)
  from soft_delete_restore_roundtrip[OF p, of "Some 2" 50 60]
  have "restore (snd (soft_delete db_content page1 (Some 2) 50))
           (page1\<lparr>is_deleted := True, deleted_at := Some 50, deleted_by := Some 2\<rparr>) 60 =
        (Inr (page1\<lparr>is_deleted := False, deleted_at := None, deleted_by := None\<rparr>),
         db_content\<lparr>contents := map (\<lambda>c. if row_is page1 c
                 then page1\<lparr>is_deleted := False, deleted_at := None, deleted_by := None\<rparr>
                 else c) (contents db_content)\<rparr>)"
    by (elim conjE)
  then have "restore (snd (soft_delete db_content page1 (Some 2) 50))
           (page1\<lparr>is_deleted := True, deleted_at := Some 50, deleted_by := Some 2\<rparr>) 60 =
        (Inr page1, db_content\<lparr>contents := contents db_content\<rparr>)"
    unfolding e m .
  then have "restore (snd (soft_delete db_content page1 (Some 2) 50))
           (page1\<lparr>is_deleted := True, deleted_at := Some 50, deleted_by := Some 2\<rparr>) 60 =
        (Inr page1, db_content)"
    by simp
  with p show ?thesis by (rule conjI)
qed

lemma modified_title_clean:
  "ContentBase_full_clean db_content (page1\<lparr>title := ''Modified Title'', is_deleted := True\<rparr>) = None"
  by code_simp

lemma modified_title_clean2:
  "ContentBase_full_clean db_content (page1\<lparr>title := ''Modified Title''\<rparr>) = None"
  by code_simp

text \<open>
  C1 (as the code behaves). page1 is stored with the title "Test Page 1" and is not
  deleted. Saving the instance with a new title alone raises
  \<open>ImmutabilityViolationError\<close> for page 1 and writes nothing. Saving it with the new
  title and \<open>is_deleted\<close> set goes through and overwrites the stored title: the guard
  lets the write pass as soon as one field of the triad differs from the stored row,
  whatever the other fields are. \<open>delete\<close> keeps the row and sets the triad.
\<close>

theorem save_title_with_triad:
  "ContentBase_save db_content (page1\<lparr>title := ''Modified Title''\<rparr>) False 99 =
     (Inl (ImmutabilityViolationError ''page'' (Some 1)), db_content) \<and>
   ContentBase_save db_content (page1\<lparr>title := ''Modified Title'', is_deleted := True\<rparr>) False 99 =
     (Inr (page1\<lparr>title := ''Modified Title'', is_deleted := True\<rparr>),
      db_content\<lparr>contents :=
        [page1\<lparr>title := ''Modified Title'', is_deleted := True\<rparr>, page2, character1, other_page]\<rparr>) \<and>
   ContentBase_delete db_content page1 (Some 2) 50 =
     (Inr (page1\<lparr>is_deleted := True, deleted_at := Some 50, deleted_by := Some 2\<rparr>),
      db_content\<lparr>contents :=
        [page1\<lparr>is_deleted := True, deleted_at := Some 50, deleted_by := Some 2\<rparr>,
         page2, character1, other_page]\<rparr>)"
proof -
  have c: "contents db_content = [page1, page2, character1, other_page]"
    by (simp add: db_content_def empty_db_def)
  have f: "pk page1 = Some 1" "kind page1 = Page" "\<not> is_deleted page1"
    "deleted_at page1 = None" "deleted_by page1 = None"
    "pk page2 = Some 2" "kind page2 = Page" "pk character1 = Some 1" "kind character1 = Character"
    "pk other_page = Some 3" "kind other_page = Page"
    by (simp_all add: fixture_defs)
  have a: "ContentBase_save db_content (page1\<lparr>title := ''Modified Title''\<rparr>) False 99 =
     (Inl (ImmutabilityViolationError ''page'' (Some 1)), db_content)"
    by (simp add: ContentBase_save_def modified_title_clean2
        ImmutableModelMixin_save_def Model_save_def pk_truthy_def row_is_def c f)
  have b: "ContentBase_save db_content (page1\<lparr>title := ''Modified Title'', is_deleted := True\<rparr>) False 99 =
     (Inr (page1\<lparr>title := ''Modified Title'', is_deleted := True\<rparr>),
      db_content\<lparr>contents :=
        [page1\<lparr>title := ''Modified Title'', is_deleted := True\<rparr>, page2, character1, other_page]\<rparr>)"
    by (simp add: ContentBase_save_def modified_title_clean
        ImmutableModelMixin_save_def Model_save_def pk_truthy_def row_is_def c f)
  have d: "ContentBase_delete db_content page1 (Some 2) 50 =
     (Inr (page1\<lparr>is_deleted := True, deleted_at := Some 50, deleted_by := Some 2\<rparr>),
      db_content\<lparr>contents :=
        [page1\<lparr>is_deleted := True, deleted_at := Some 50, deleted_by := Some 2\<rparr>,
         page2, character1, other_page]\<rparr>)"
    by (simp add: ContentBase_delete_def soft_delete_def
        ImmutableModelMixin_save_def Model_save_def pk_truthy_def row_is_def c f)
  from a b d show ?thesis by (intro conjI)
qed





lemma wf_pk_le:
  assumes "contents_wf d" "c \<in> set (contents d)" "pk c = Some i"
  shows "i \<le> content_seq d (kind c)"
  using assms by (auto simp: contents_wf_def list_all_iff split: option.splits)



lemma insert_new:
  assumes "pk e = None"
  shows "ImmutableModelMixin_save d e False now =
           (Inr (e\<lparr>pk := Some (Suc (content_seq d (kind e))), created_at := now\<rparr>),
            d\<lparr>contents := contents d @
                  [e\<lparr>pk := Some (Suc (content_seq d (kind e))), created_at := now\<rparr>],
              content_seq := (content_seq d)(kind e := Suc (content_seq d (kind e)))\<rparr>)"
  using assms by (simp add: ImmutableModelMixin_save_def Model_save_def pk_truthy_def Let_def)


lemma save_new_ok:
  assumes "pk e = None" "ContentBase_full_clean d e = None"
  shows "ContentBase_save d e False now =
           (Inr (e\<lparr>pk := Some (Suc (content_seq d (kind e))), created_at := now\<rparr>),
            d\<lparr>contents := contents d @
                  [e\<lparr>pk := Some (Suc (content_seq d (kind e))), created_at := now\<rparr>],
              content_seq := (content_seq d)(kind e := Suc (content_seq d (kind e))),
              contribution_count :=
                (contribution_count d)(author e := contribution_count d (author e) + 1)\<rparr>)"
  using assms by (simp add: ContentBase_save_def insert_new)





section \<open>Properties of the timeline\<close>

lemma newest_first_sorted: "sorted (rev (map created_at (newest_first xs)))"
  by (simp add: newest_first_def rev_map)

lemma newest_first_stable:
  "filter (\<lambda>c. created_at c = t) (newest_first xs) = filter (\<lambda>c. created_at c = t) xs"
proof -
  have "filter (\<lambda>c. created_at c = t) (newest_first xs) =
          rev (filter (\<lambda>c. created_at c = t) (sort_key created_at (rev xs)))"
    by (simp add: newest_first_def rev_filter)
  also have "\<dots> = rev (filter (\<lambda>c. created_at c = t) (rev xs))"
    by (simp only: sort_key_stable)
  also have "\<dots> = filter (\<lambda>c. created_at c = t) xs"
    by (simp add: rev_filter)
  finally show ?thesis .
qed

lemma newest_first_set: "set (newest_first xs) = set xs"
  by (simp add: newest_first_def)

lemma newest_first_length: "length (newest_first xs) = length xs"
  by (simp add: newest_first_def)

lemma py_slice_page:
  assumes "0 \<le> lo" "0 \<le> n"
  shows "py_slice xs lo (lo + n) = take (nat n) (drop (nat lo) xs)"
proof -
  let ?m = "int (length xs)"
  consider (a) "lo + n \<le> ?m" | (b) "lo \<le> ?m" "?m < lo + n" | (c) "?m < lo"
    by linarith
  then show ?thesis
  proof cases
    case a
    with assms have "lo \<le> ?m" by linarith
    with a assms show ?thesis by (simp add: py_slice_def Let_def min_def)
  next
    case b
    have l1: "length (drop (nat lo) xs) \<le> nat (?m - lo)" using assms b by simp
    have l2: "length (drop (nat lo) xs) \<le> nat n" using assms b by simp
    from b assms have "py_slice xs lo (lo + n) = take (nat (?m - lo)) (drop (nat lo) xs)"
      by (simp add: py_slice_def Let_def min_def)
    also have "\<dots> = drop (nat lo) xs" using l1 by (rule take_all)
    also have "\<dots> = take (nat n) (drop (nat lo) xs)" using l2 by (rule take_all[symmetric])
    finally show ?thesis .
  next
    case c
    with assms have e: "drop (nat lo) xs = []" by simp
    from c assms have "py_slice xs lo (lo + n) = []"
      by (simp add: py_slice_def Let_def min_def)
    with e show ?thesis by simp
  qed
qed

lemma default_queryset:
  "timeline_queryset d un w default_params k =
     newest_first (filter (\<lambda>c. world c = w) (objects d k))"
  by (simp add: timeline_queryset_def default_params_def Let_def)

lemma default_gathered:
  "timeline_gathered d un w default_params =
     concat (map (\<lambda>k. newest_first (filter (\<lambda>c. world c = w) (objects d k)))
               [Page, Essay, Character, Story, Image])"
proof -
  have r: "requested_types default_params = []"
    by (simp add: requested_types_def default_params_def)
  show ?thesis
    by (simp add: timeline_gathered_def r content_models_def default_queryset)
qed

lemma three_sorted:
  assumes "created_at p < created_at c" "created_at c < created_at s"
  shows "newest_first [p, c, s] = [s, c, p]"
  using assms by (simp add: newest_first_def)

lemma world_rows_set:
  "set (concat (map (\<lambda>k. newest_first (filter (\<lambda>c. world c = w) (objects d k)))
                  [Page, Essay, Character, Story, Image])) =
   {c \<in> set (contents d). world c = w \<and> \<not> is_deleted c}"
proof -
  have k: "kind c = Page \<or> kind c = Essay \<or> kind c = Character \<or> kind c = Story \<or>
           kind c = Image" for c
    by (cases "kind c") simp_all
  show ?thesis
    using k by (auto simp: newest_first_set objects_def)
qed

lemmas timeline_defs = timeline_def timeline_sorted_def objects_def newest_first_def
  py_slice_def get_content_timeline_def

lemmas timeline_fixture_defs = db_tie1_def db_tie2_def db_three_def empty_db_def saved_def

text \<open>
  C8, as stated, fails: no secondary key breaks the ties. The sort key is \<open>created_at\<close>
  alone and the sort is stable, so entries with the same creation time stay in the
  order in which the loop over the model classes gathered them, pages before
  characters. With a page of id 1 and a character of id 2 created at the same time
  the page comes first, and with a character of id 1 and a page of id 2 the page
  comes first again: the order of the tie follows the ids in the first world and is
  against them in the second.
\<close>

theorem timeline_tie_order:
  "fst (timeline db_tie1 usernames 1 default_params) =
     [saved Page 1 ''First page'' 1 1 10, saved Character 2 ''Second hero'' 2 1 10] \<and>
   fst (timeline db_tie2 usernames 1 default_params) =
     [saved Page 2 ''Second page'' 1 1 10, saved Character 1 ''First hero'' 2 1 10] \<and>
   get_content_timeline db_tie1 1 =
     [saved Page 1 ''First page'' 1 1 10, saved Character 2 ''Second hero'' 2 1 10] \<and>
   get_content_timeline db_tie2 1 =
     [saved Page 2 ''Second page'' 1 1 10, saved Character 1 ''First hero'' 2 1 10]"
proof -
  have p: "limit_param default_params = 50" "offset_param default_params = 0"
    by (simp_all add: default_params_def)
  show ?thesis
    by (simp add: timeline_defs default_gathered p timeline_fixture_defs)
qed

text \<open>
  C8, amended. The merged sequence is ordered by \<open>created_at\<close>, newest first. The
  entries with one and the same creation time appear in it in the order in which
  they were gathered: the requested model classes in the order pages, essays,
  characters, stories, images, and within a class in the order of its query. The
  count is that of the merged sequence. The page is the slice of the merged sequence
  from \<open>offset\<close> to \<open>offset + min limit 200\<close>; for an offset and a limit that are not
  negative it is the sequence without its first \<open>offset\<close> entries, cut after
  \<open>min limit 200\<close> entries. Without filters the merged sequence is
  \<open>World.get_content_timeline\<close> and holds the entries of the world that are not
  soft-deleted. When the content table holds a page, a character and a story of the
  world, created in this order at strictly increasing times, the timeline is the
  story, the character, the page.
\<close>

theorem timeline_newest_first:
  "sorted (rev (map created_at (timeline_sorted d un w p))) \<and>
   (\<forall>t. filter (\<lambda>c. created_at c = t) (timeline_sorted d un w p) =
         concat (map (\<lambda>k. filter (\<lambda>c. created_at c = t) (timeline_queryset d un w p k))
                   (filter (\<lambda>k. requested_types p = [] \<or>
                                type_name k \<in> set (requested_types p)) content_models))) \<and>
   snd (timeline d un w p) = length (timeline_gathered d un w p) \<and>
   fst (timeline d un w p) =
     py_slice (timeline_sorted d un w p) (offset_param p)
       (offset_param p + min (limit_param p) 200) \<and>
   (0 \<le> offset_param p \<and> 0 \<le> limit_param p \<longrightarrow>
      fst (timeline d un w p) =
        take (nat (min (limit_param p) 200))
          (drop (nat (offset_param p)) (timeline_sorted d un w p))) \<and>
   get_content_timeline d w = timeline_sorted d un w default_params \<and>
   set (timeline_sorted d un w default_params) =
     {c \<in> set (contents d). world c = w \<and> \<not> is_deleted c} \<and>
   (contents d = [x, y, z] \<and> kind x = Page \<and> kind y = Character \<and> kind z = Story \<and>
    world x = w \<and> world y = w \<and> world z = w \<and>
    \<not> is_deleted x \<and> \<not> is_deleted y \<and> \<not> is_deleted z \<and>
    created_at x < created_at y \<and> created_at y < created_at z \<longrightarrow>
      fst (timeline d un w default_params) = [z, y, x])"
proof (intro conjI allI impI)
  show "sorted (rev (map created_at (timeline_sorted d un w p)))"
    by (simp only: timeline_sorted_def newest_first_sorted)
next
  fix t
  show "filter (\<lambda>c. created_at c = t) (timeline_sorted d un w p) =
         concat (map (\<lambda>k. filter (\<lambda>c. created_at c = t) (timeline_queryset d un w p k))
                   (filter (\<lambda>k. requested_types p = [] \<or>
                                type_name k \<in> set (requested_types p)) content_models))"
    by (simp add: timeline_sorted_def newest_first_stable timeline_gathered_def
        filter_concat comp_def)
next
  show "snd (timeline d un w p) = length (timeline_gathered d un w p)"
    by (simp add: timeline_def Let_def timeline_sorted_def newest_first_length)
next
  show "fst (timeline d un w p) =
     py_slice (timeline_sorted d un w p) (offset_param p)
       (offset_param p + min (limit_param p) 200)"
    by (simp add: timeline_def Let_def)
next
  assume "0 \<le> offset_param p \<and> 0 \<le> limit_param p"
  then have o: "0 \<le> offset_param p" and l: "0 \<le> min (limit_param p) 200" by simp_all
  show "fst (timeline d un w p) =
        take (nat (min (limit_param p) 200))
          (drop (nat (offset_param p)) (timeline_sorted d un w p))"
    by (simp add: timeline_def Let_def py_slice_page[OF o l])
next
  show "get_content_timeline d w = timeline_sorted d un w default_params"
    by (simp add: get_content_timeline_def timeline_sorted_def default_gathered)
next
  show "set (timeline_sorted d un w default_params) =
     {c \<in> set (contents d). world c = w \<and> \<not> is_deleted c}"
    by (simp only: timeline_sorted_def newest_first_set default_gathered world_rows_set)
next
  assume h: "contents d = [x, y, z] \<and> kind x = Page \<and> kind y = Character \<and> kind z = Story \<and>
    world x = w \<and> world y = w \<and> world z = w \<and>
    \<not> is_deleted x \<and> \<not> is_deleted y \<and> \<not> is_deleted z \<and>
    created_at x < created_at y \<and> created_at y < created_at z"
  then have g: "timeline_gathered d un w default_params = [x, y, z]"
    by (simp add: default_gathered objects_def newest_first_def)
  have s: "timeline_sorted d un w default_params = [z, y, x]"
    using h by (simp add: timeline_sorted_def g three_sorted)
  have p: "limit_param default_params = 50" "offset_param default_params = 0"
    by (simp_all add: default_params_def)
  show "fst (timeline d un w default_params) = [z, y, x]"
    by (simp add: timeline_def Let_def s p py_slice_def)
qed

theorem timeline_newest_first_witness:
  "ContentBase_save empty_db (draft Page ''Page P1'' 1 1) False 1 =
     (Inr (saved Page 1 ''Page P1'' 1 1 1), db_one) \<and>
   ContentBase_save db_one (draft Character ''Character C1'' 1 1) False 2 =
     (Inr (saved Character 1 ''Character C1'' 1 1 2), db_two) \<and>
   ContentBase_save db_two (draft Story ''Story S1'' 1 1) False 3 =
     (Inr (saved Story 1 ''Story S1'' 1 1 3), db_three) \<and>
   contents db_three =
     [saved Page 1 ''Page P1'' 1 1 1, saved Character 1 ''Character C1'' 1 1 2,
      saved Story 1 ''Story S1'' 1 1 3] \<and>
   fst (timeline db_three usernames 1 default_params) =
     [saved Story 1 ''Story S1'' 1 1 3, saved Character 1 ''Character C1'' 1 1 2,
      saved Page 1 ''Page P1'' 1 1 1] \<and>
   (0::int) \<le> offset_param (default_params\<lparr>limit_param := 2, offset_param := 1\<rparr>) \<and>
   (0::int) \<le> limit_param (default_params\<lparr>limit_param := 2, offset_param := 1\<rparr>) \<and>
   fst (timeline db_three usernames 1 (default_params\<lparr>limit_param := 2, offset_param := 1\<rparr>)) =
     [saved Character 1 ''Character C1'' 1 1 2, saved Page 1 ''Page P1'' 1 1 1]"
proof -
  let ?x = "saved Page 1 ''Page P1'' 1 1 1"
  let ?y = "saved Character 1 ''Character C1'' 1 1 2"
  let ?z = "saved Story 1 ''Story S1'' 1 1 3"
  let ?p = "default_params\<lparr>limit_param := 2, offset_param := 1\<rparr>"
  have n: "pk (draft k t a w) = None" for k t a w by (simp add: draft_def)
  have v1: "ContentBase_full_clean empty_db (draft Page ''Page P1'' 1 1) = None"
    by code_simp
  have v2: "ContentBase_full_clean db_one (draft Character ''Character C1'' 1 1) = None"
    by code_simp
  have v3: "ContentBase_full_clean db_two (draft Story ''Story S1'' 1 1) = None"
    by code_simp
  have s1: "ContentBase_save empty_db (draft Page ''Page P1'' 1 1) False 1 = (Inr ?x, db_one)"
    unfolding save_new_ok[OF n v1]
    by (simp add: draft_def saved_def db_one_def empty_db_def)
  have s2: "ContentBase_save db_one (draft Character ''Character C1'' 1 1) False 2 =
              (Inr ?y, db_two)"
    unfolding save_new_ok[OF n v2]
    by (simp add: draft_def saved_def db_one_def db_two_def empty_db_def numeral_2_eq_2)
  have s3: "ContentBase_save db_two (draft Story ''Story S1'' 1 1) False 3 =
              (Inr ?z, db_three)"
    unfolding save_new_ok[OF n v3]
    by (simp add: draft_def saved_def db_two_def db_three_def empty_db_def
        numeral_2_eq_2 numeral_3_eq_3)
  have c: "contents db_three = [?x, ?y, ?z]" by (simp add: db_three_def)
  have h: "contents db_three = [?x, ?y, ?z] \<and> kind ?x = Page \<and> kind ?y = Character \<and>
    kind ?z = Story \<and> world ?x = 1 \<and> world ?y = 1 \<and> world ?z = 1 \<and>
    \<not> is_deleted ?x \<and> \<not> is_deleted ?y \<and> \<not> is_deleted ?z \<and>
    created_at ?x < created_at ?y \<and> created_at ?y < created_at ?z"
    by (simp add: db_three_def saved_def)
  note t = timeline_newest_first[of db_three usernames 1 default_params ?x ?y ?z]
  from t h have a: "fst (timeline db_three usernames 1 default_params) = [?z, ?y, ?x]"
    by blast
  have o: "(0::int) \<le> offset_param ?p" and l: "(0::int) \<le> limit_param ?p"
    by simp_all
  note t2 = timeline_newest_first[of db_three usernames 1 ?p ?x ?y ?z]
  from t2 o l have b: "fst (timeline db_three usernames 1 ?p) =
        take (nat (min (limit_param ?p) 200))
          (drop (nat (offset_param ?p)) (timeline_sorted db_three usernames 1 ?p))"
    by blast
  have q: "timeline_queryset d un w ?p k =
             newest_first (filter (\<lambda>c. world c = w) (objects d k))" for d un w k
    by (simp add: timeline_queryset_def default_params_def Let_def)
  have r: "requested_types ?p = []"
    by (simp add: requested_types_def default_params_def)
  have s: "timeline_sorted db_three usernames 1 ?p = [?z, ?y, ?x]"
    by (simp add: timeline_sorted_def timeline_gathered_def r content_models_def q
        objects_def newest_first_def db_three_def empty_db_def saved_def)
  have b': "fst (timeline db_three usernames 1 ?p) = [?y, ?x]"
    unfolding b s by simp
  from s1 s2 s3 c a o l b' show ?thesis by (intro conjI)
qed

section \<open>Properties of the collaboration metrics\<close>

lemma get_object_key:
  assumes "get_object_for_this_type d k i = Some c"
  shows "kind c = k" "pk c = Some i"
  using assms by (auto simp: get_object_for_this_type_def find_Some_iff)

lemma distinct_map_filter_Some:
  assumes "distinct (map g xs)"
    and "\<And>x c. x \<in> set xs \<Longrightarrow> f x = Some c \<Longrightarrow> h c = g x"
  shows "distinct (List.map_filter f xs)"
  using assms
proof (induction xs)
  case Nil
  then show ?case by (simp add: map_filter_simps)
next
  case (Cons a xs)
  from Cons.prems(1) have d: "distinct (map g xs)" and n: "g a \<notin> g ` set xs" by simp_all
  have ih: "distinct (List.map_filter f xs)"
    by (rule Cons.IH[OF d]) (rule Cons.prems(2), simp_all)
  show ?case
  proof (cases "f a")
    case None
    with ih show ?thesis by (simp add: map_filter_simps)
  next
    case (Some c)
    have "c \<notin> set (List.map_filter f xs)"
    proof
      assume "c \<in> set (List.map_filter f xs)"
      then obtain x where x: "x \<in> set xs" "f x = Some c"
        by (auto simp: map_filter_def)
      from Cons.prems(2)[of x c] x have "h c = g x" by simp
      moreover from Cons.prems(2)[of a c] Some have "h c = g a" by simp
      ultimately have "g a = g x" by simp
      with x(1) n show False by auto
    qed
    with ih Some show ?thesis by (simp add: map_filter_simps)
  qed
qed

lemma distinct_linked_content:
  assumes "links_wf d"
  shows "distinct (get_linked_content d e)"
proof (cases "pk e")
  case None
  then show ?thesis by (simp add: get_linked_content_def map_filter_simps)
next
  case (Some i)
  let ?ls = "filter (\<lambda>l. from_content_type l = kind e \<and> Some (from_object_id l) = pk e)
               (content_links d)"
  from assms have "distinct (map link_key (content_links d))" by (simp add: links_wf_def)
  then have "distinct (map link_key ?ls)" by (rule distinct_map_filter)
  moreover have "map link_key ?ls =
      map (\<lambda>l. (kind e, i, to_content_type l, to_object_id l)) ?ls"
    using Some by (auto simp: link_key_def)
  ultimately have "distinct (map (\<lambda>l. (kind e, i, to_content_type l, to_object_id l)) ?ls)"
    by simp
  then have dk: "distinct (map (\<lambda>l. (to_content_type l, to_object_id l)) ?ls)"
    by (simp add: distinct_map inj_on_def)
  have "distinct (List.map_filter
          (\<lambda>l. get_object_for_this_type d (to_content_type l) (to_object_id l)) ?ls)"
  proof (rule distinct_map_filter_Some[OF dk, where h = "\<lambda>c. (kind c, the (pk c))"])
    fix x c
    assume "get_object_for_this_type d (to_content_type x) (to_object_id x) = Some c"
    from get_object_key[OF this]
    show "(kind c, the (pk c)) = (to_content_type x, to_object_id x)" by simp
  qed
  then show ?thesis by (simp add: get_linked_content_def)
qed

lemma distinct_linking_content:
  assumes "links_wf d"
  shows "distinct (get_content_linking_to_this d e)"
proof (cases "pk e")
  case None
  then show ?thesis by (simp add: get_content_linking_to_this_def map_filter_simps)
next
  case (Some i)
  let ?ls = "filter (\<lambda>l. to_content_type l = kind e \<and> Some (to_object_id l) = pk e)
               (content_links d)"
  from assms have "distinct (map link_key (content_links d))" by (simp add: links_wf_def)
  then have "distinct (map link_key ?ls)" by (rule distinct_map_filter)
  moreover have "map link_key ?ls =
      map (\<lambda>l. (from_content_type l, from_object_id l, kind e, i)) ?ls"
    using Some by (auto simp: link_key_def)
  ultimately have "distinct (map (\<lambda>l. (from_content_type l, from_object_id l, kind e, i)) ?ls)"
    by simp
  then have dk: "distinct (map (\<lambda>l. (from_content_type l, from_object_id l)) ?ls)"
    by (simp add: distinct_map inj_on_def)
  have "distinct (List.map_filter
          (\<lambda>l. get_object_for_this_type d (from_content_type l) (from_object_id l)) ?ls)"
  proof (rule distinct_map_filter_Some[OF dk, where h = "\<lambda>c. (kind c, the (pk c))"])
    fix x c
    assume "get_object_for_this_type d (from_content_type x) (from_object_id x) = Some c"
    from get_object_key[OF this]
    show "(kind c, the (pk c)) = (from_content_type x, from_object_id x)" by simp
  qed
  then show ?thesis by (simp add: get_content_linking_to_this_def)
qed

lemma distinct_get_tags:
  assumes "tags_wf d"
  shows "distinct (get_tags d e)"
proof -
  from assms have "distinct (map tag_key (tags d))" by (simp add: tags_wf_def)
  then have "distinct (tags d)" by (simp add: distinct_map)
  then show ?thesis by (simp add: get_tags_def Let_def)
qed

lemma card_filter_set:
  assumes "distinct xs"
  shows "card {c \<in> set xs. P c} = length (filter P xs)"
proof -
  have "distinct (filter P xs)" using assms by simp
  then have "card (set (filter P xs)) = length (filter P xs)" by (rule distinct_card)
  moreover have "{c \<in> set xs. P c} = set (filter P xs)" by auto
  ultimately show ?thesis by (simp only:)
qed

lemma linking_after_link_to:
  assumes "links_wf d" "persisted d c" "persisted d p" "world p = world c"
    and "(kind c, pk c) \<noteq> (kind p, pk p)"
    and "\<forall>l\<in>set (content_links d). \<not> (to_content_type l = kind p \<and> Some (to_object_id l) = pk p)"
  shows "get_content_linking_to_this (snd (link_to d c p)) p = [c]"
proof -
  from assms(2) obtain ic where ic: "pk c = Some ic"
    and gc: "get_object_for_this_type d (kind c) ic = Some c"
    by (auto simp: persisted_def split: option.splits)
  from assms(3) obtain ip where ip: "pk p = Some ip"
    by (auto simp: persisted_def split: option.splits)
  from assms(5) ic ip have ne: "(kind c, ic) \<noteq> (kind p, ip)" by simp
  from link_to_ok[OF assms(1,4) ic ip ne] obtain l d' where
    r: "link_to d c p = (Inr l, d')" and
    lk: "link_key l = (kind c, ic, kind p, ip)" and
    wf': "links_wf d'" and
    keys: "link_keys d' = insert (kind c, ic, kind p, ip)
                            (insert (kind p, ip, kind c, ic) (link_keys d))" and
    cont: "contents d' = contents d"
    by auto
  from link_to_mem[OF r] have lin: "l \<in> set (content_links d')" .
  from wf' have dk: "distinct (map link_key (content_links d'))" by (simp add: links_wf_def)
  have old: "link_key y \<noteq> (fk, fi, kind p, ip)" if "y \<in> set (content_links d)" for y fk fi
  proof
    assume "link_key y = (fk, fi, kind p, ip)"
    then have "to_content_type y = kind p \<and> Some (to_object_id y) = pk p"
      by (simp add: link_key_def ip)
    with assms(6) that show False by auto
  qed
  have eq: "(to_content_type y = kind p \<and> Some (to_object_id y) = pk p) =
            (link_key y = link_key l)" if y: "y \<in> set (content_links d')" for y
  proof
    assume a: "to_content_type y = kind p \<and> Some (to_object_id y) = pk p"
    then have t: "to_content_type y = kind p" "to_object_id y = ip" using ip by auto
    from y have "link_key y \<in> link_keys d'" by (simp add: link_keys_def)
    with keys have "link_key y = (kind c, ic, kind p, ip) \<or>
                    link_key y = (kind p, ip, kind c, ic) \<or> link_key y \<in> link_keys d"
      by simp
    then show "link_key y = link_key l"
    proof (elim disjE)
      assume "link_key y = (kind c, ic, kind p, ip)"
      with lk show ?thesis by simp
    next
      assume "link_key y = (kind p, ip, kind c, ic)"
      then have "to_content_type y = kind c" "to_object_id y = ic"
        by (simp_all add: link_key_def)
      with t ne show ?thesis by simp
    next
      assume "link_key y \<in> link_keys d"
      then obtain y0 where y0: "y0 \<in> set (content_links d)" "link_key y0 = link_key y"
        by (auto simp: link_keys_def)
      from t have "link_key y = (from_content_type y, from_object_id y, kind p, ip)"
        by (simp add: link_key_def)
      with y0 old[OF y0(1), of "from_content_type y" "from_object_id y"]
      show ?thesis by simp
    qed
  next
    assume "link_key y = link_key l"
    with lk show "to_content_type y = kind p \<and> Some (to_object_id y) = pk p"
      by (simp add: link_key_def ip)
  qed
  have "filter (\<lambda>y. to_content_type y = kind p \<and> Some (to_object_id y) = pk p)
          (content_links d') =
        filter (\<lambda>y. link_key y = link_key l) (content_links d')"
    by (rule filter_cong[OF refl]) (rule eq)
  also have "\<dots> = [l]" by (rule filter_key_unique[OF dk lin])
  finally have f: "filter (\<lambda>y. to_content_type y = kind p \<and> Some (to_object_id y) = pk p)
          (content_links d') = [l]" .
  from lk have from_l: "from_content_type l = kind c" "from_object_id l = ic"
    by (simp_all add: link_key_def)
  have g: "get_object_for_this_type d' (kind c) ic = Some c"
    using gc by (simp add: get_object_contents[OF cont])
  show ?thesis
    by (simp add: r get_content_linking_to_this_def f map_filter_simps from_l g)
qed

lemmas metrics_defs = get_collaboration_info_def attribution_details_def get_tags_def
  get_linked_content_def get_content_linking_to_this_def get_object_for_this_type_def
  map_filter_def

text \<open>
  C9, as stated, fails for both scores. page1 and page2 have the same author and are
  linked in both directions, and page1 has no tag: the score of
  \<open>get_collaboration_info\<close> is 2, it counts every link target and every link source,
  whoever the author is. And page1 with two tags and no link has the score 0 in
  \<open>attribution_details\<close>, which does not count tags.
\<close>

theorem collaboration_score_counts:
  "get_linked_content db_linked page1 = [page2] \<and>
   get_content_linking_to_this db_linked page1 = [page2] \<and>
   author page2 = author page1 \<and>
   get_tags db_linked page1 = [] \<and>
   collaboration_score (get_collaboration_info db_linked usernames page1) = 2 \<and>
   get_linked_content db_tagged page1 = [] \<and>
   get_content_linking_to_this db_tagged page1 = [] \<and>
   length (get_tags db_tagged page1) = 2 \<and>
   metrics_collaboration_score (attribution_details db_tagged page1) = 0"
  by (simp add: metrics_defs fixture_defs tag_fixture_defs Let_def)

text \<open>
  C9, amended. On a store that satisfies the unique constraints of links and tags,
  the score of \<open>get_collaboration_info\<close> is the number of distinct link targets of
  the entity plus the number of its distinct link sources plus the number of its
  tags, and the score of \<open>attribution_details\<close> is the number of distinct link
  targets by another author plus the number of distinct link sources by another
  author. In both, \<open>is_collaborative\<close> holds exactly when the number of link targets
  and link sources by another author is greater than zero. When an entity \<open>c\<close> of
  another author is linked to an entity \<open>e\<close> of the same world that no link pointed to
  before, \<open>attribution_details\<close> of \<open>e\<close> reports one reference received, one
  cross-author reference received, and a collaborative entity.
\<close>

theorem collaboration_metrics_spec:
  assumes "links_wf d" "tags_wf d"
  shows "collaboration_score (get_collaboration_info d un e) =
           card (set (get_linked_content d e)) +
           card (set (get_content_linking_to_this d e)) +
           card (set (get_tags d e)) \<and>
         (is_collaborative (get_collaboration_info d un e) \<longleftrightarrow>
            0 < card {x \<in> set (get_linked_content d e). author x \<noteq> author e} +
                card {x \<in> set (get_content_linking_to_this d e). author x \<noteq> author e}) \<and>
         metrics_collaboration_score (attribution_details d e) =
           card {x \<in> set (get_linked_content d e). author x \<noteq> author e} +
           card {x \<in> set (get_content_linking_to_this d e). author x \<noteq> author e} \<and>
         (metrics_is_collaborative (attribution_details d e) \<longleftrightarrow>
            0 < card {x \<in> set (get_linked_content d e). author x \<noteq> author e} +
                card {x \<in> set (get_content_linking_to_this d e). author x \<noteq> author e}) \<and>
         (persisted d c \<and> persisted d e \<and> world e = world c \<and> author c \<noteq> author e \<and>
          (kind c, pk c) \<noteq> (kind e, pk e) \<and>
          (\<forall>l\<in>set (content_links d).
              \<not> (to_content_type l = kind e \<and> Some (to_object_id l) = pk e)) \<longrightarrow>
            total_references_received (attribution_details (snd (link_to d c e)) e) = 1 \<and>
            cross_author_references_received (attribution_details (snd (link_to d c e)) e) = 1 \<and>
            metrics_is_collaborative (attribution_details (snd (link_to d c e)) e))"
proof -
  let ?out = "get_linked_content d e" and ?in = "get_content_linking_to_this d e"
  let ?P = "\<lambda>x. author x \<noteq> author e"
  note d1 = distinct_linked_content[OF assms(1), of e]
  note d2 = distinct_linking_content[OF assms(1), of e]
  note d3 = distinct_get_tags[OF assms(2), of e]
  have c1: "card {x \<in> set ?out. ?P x} = length (filter ?P ?out)"
    by (rule card_filter_set[OF d1])
  have c2: "card {x \<in> set ?in. ?P x} = length (filter ?P ?in)"
    by (rule card_filter_set[OF d2])
  have s1: "collaboration_score (get_collaboration_info d un e) =
           card (set ?out) + card (set ?in) + card (set (get_tags d e))"
    by (simp add: get_collaboration_info_def Let_def distinct_card[OF d1] distinct_card[OF d2]
        distinct_card[OF d3])
  have s2: "is_collaborative (get_collaboration_info d un e) \<longleftrightarrow>
            0 < card {x \<in> set ?out. ?P x} + card {x \<in> set ?in. ?P x}"
    unfolding c1 c2 by (auto simp: get_collaboration_info_def Let_def filter_empty_conv)
  have fs: "filter snd (map (\<lambda>x. (x, author x \<noteq> author e)) xs) =
            map (\<lambda>x. (x, author x \<noteq> author e)) (filter ?P xs)" for xs
    by (induction xs) simp_all
  have s3: "metrics_collaboration_score (attribution_details d e) =
           card {x \<in> set ?out. ?P x} + card {x \<in> set ?in. ?P x}"
    unfolding c1 c2 by (simp add: attribution_details_def Let_def fs)
  have s4: "metrics_is_collaborative (attribution_details d e) \<longleftrightarrow>
            0 < card {x \<in> set ?out. ?P x} + card {x \<in> set ?in. ?P x}"
    unfolding c1 c2 by (simp add: attribution_details_def Let_def fs)
  have s5: "total_references_received (attribution_details (snd (link_to d c e)) e) = 1 \<and>
            cross_author_references_received (attribution_details (snd (link_to d c e)) e) = 1 \<and>
            metrics_is_collaborative (attribution_details (snd (link_to d c e)) e)"
    if h: "persisted d c \<and> persisted d e \<and> world e = world c \<and> author c \<noteq> author e \<and>
          (kind c, pk c) \<noteq> (kind e, pk e) \<and>
          (\<forall>l\<in>set (content_links d).
              \<not> (to_content_type l = kind e \<and> Some (to_object_id l) = pk e))"
  proof -
    from h have pc: "persisted d c" and pe: "persisted d e" and w: "world e = world c"
      and a: "author c \<noteq> author e" and ne: "(kind c, pk c) \<noteq> (kind e, pk e)"
      and noin: "\<forall>l\<in>set (content_links d).
              \<not> (to_content_type l = kind e \<and> Some (to_object_id l) = pk e)"
      by simp_all
    have "get_content_linking_to_this (snd (link_to d c e)) e = [c]"
      by (rule linking_after_link_to[OF assms(1) pc pe w ne noin])
    with a show ?thesis by (simp add: attribution_details_def Let_def)
  qed
  from s1 s2 s3 s4 s5 show ?thesis by blast
qed

theorem collaboration_metrics_spec_witness:
  "links_wf db_content \<and> tags_wf db_content \<and>
   persisted db_content character1 \<and> persisted db_content page1 \<and>
   world page1 = world character1 \<and> author character1 \<noteq> author page1 \<and>
   content_links db_content = [] \<and>
   total_references_received
     (attribution_details (snd (link_to db_content character1 page1)) page1) = 1 \<and>
   cross_author_references_received
     (attribution_details (snd (link_to db_content character1 page1)) page1) = 1 \<and>
   metrics_is_collaborative
     (attribution_details (snd (link_to db_content character1 page1)) page1)"
proof -
  have wf: "links_wf db_content"
    by (simp add: links_wf_def fixture_defs)
  have twf: "tags_wf db_content"
    by (simp add: tags_wf_def fixture_defs)
  have pc: "persisted db_content character1"
    by (simp add: persisted_def get_object_for_this_type_def fixture_defs)
  have pe: "persisted db_content page1"
    by (simp add: persisted_def get_object_for_this_type_def fixture_defs)
  have w: "world page1 = world character1" by (simp add: fixture_defs)
  have a: "author character1 \<noteq> author page1" by (simp add: fixture_defs)
  have ne: "(kind character1, pk character1) \<noteq> (kind page1, pk page1)"
    by (simp add: fixture_defs)
  have e: "content_links db_content = []" by (simp add: fixture_defs)
  then have noin: "\<forall>l\<in>set (content_links db_content).
              \<not> (to_content_type l = kind page1 \<and> Some (to_object_id l) = pk page1)"
    by simp
  note t = collaboration_metrics_spec[OF wf twf, of usernames page1 character1]
  from t pc pe w a ne noin have
    "total_references_received
       (attribution_details (snd (link_to db_content character1 page1)) page1) = 1 \<and>
     cross_author_references_received
       (attribution_details (snd (link_to db_content character1 page1)) page1) = 1 \<and>
     metrics_is_collaborative
       (attribution_details (snd (link_to db_content character1 page1)) page1)"
    by blast
  with wf twf pc pe w a e show ?thesis by (intro conjI) simp_all
qed

end
